(* ===== verification/Prelude.thy ===== *)
theory Prelude
  imports Main "HOL-Library.Word"
begin

text \<open>
  Shared vocabulary of the development: the C integer types, byte strings with the two
  accesses the packet helpers are built from (a window of a buffer and an overwrite of a
  window), the join and split of 16 and 32 bit words into bytes, and ones' complement
  congruence (equality modulo $2^{16}-1$), in which all Internet checksum arguments run.
\<close>

unbundle bit_operations_syntax

section \<open>C integer types\<close>

type_synonym u8 = "8 word"
type_synonym u16 = "16 word"
type_synonym u32 = "32 word"
type_synonym u64 = "64 word"
type_synonym bytes = "u8 list"

named_theorems wire_simps \<open>access to windows of a byte string\<close>
named_theorems word_join_simps \<open>joining and splitting words\<close>

lemma unat_u8_less: "unat (x :: u8) < 256"
  using unsigned_less [where 'a = nat, of x] by simp

lemma unat_u16_less: "unat (x :: u16) < 65536"
  using unsigned_less [where 'a = nat, of x] by simp

lemma unat_u32_less: "unat (x :: u32) < 4294967296"
  using unsigned_less [where 'a = nat, of x] by simp

lemma unat_u8_le: "unat (x :: u8) \<le> 255"
  using unat_u8_less [of x] by linarith

lemma unat_u16_le: "unat (x :: u16) \<le> 65535"
  using unat_u16_less [of x] by linarith

section \<open>Windows of a byte string\<close>

definition window :: "nat \<Rightarrow> nat \<Rightarrow> 'a list \<Rightarrow> 'a list" where
  "window off n xs = take n (drop off xs)"

definition overwrite :: "nat \<Rightarrow> 'a list \<Rightarrow> 'a list \<Rightarrow> 'a list" where
  "overwrite off ys xs = take off xs @ ys @ drop (off + length ys) xs"

lemma length_window [simp]: "off + n \<le> length xs \<Longrightarrow> length (window off n xs) = n"
  by (simp add: window_def)

lemma length_overwrite [simp]:
  "off + length ys \<le> length xs \<Longrightarrow> length (overwrite off ys xs) = length xs"
  by (simp add: overwrite_def)

lemma nth_window [wire_simps]:
  "i < n \<Longrightarrow> off + n \<le> length xs \<Longrightarrow> window off n xs ! i = xs ! (off + i)"
  by (simp add: window_def)

lemma take_overwrite [wire_simps]:
  "m \<le> off \<Longrightarrow> off + length ys \<le> length xs \<Longrightarrow> take m (overwrite off ys xs) = take m xs"
  by (simp add: overwrite_def min_def)

lemma drop_overwrite [wire_simps]:
  "off + length ys \<le> m \<Longrightarrow> off + length ys \<le> length xs \<Longrightarrow>
   drop m (overwrite off ys xs) = drop m xs"
  by (simp add: overwrite_def min_def)

lemma window_overwrite_same [wire_simps]:
  "off + length ys \<le> length xs \<Longrightarrow> window off (length ys) (overwrite off ys xs) = ys"
  by (simp add: window_def overwrite_def min_def)

lemma window_overwrite_before [wire_simps]:
  assumes "m + n \<le> off" and "off + length ys \<le> length xs"
  shows "window m n (overwrite off ys xs) = window m n xs"
proof -
  have "window m n zs = drop m (take (m + n) zs)" for zs :: "'a list"
    by (simp add: window_def take_drop add.commute)
  then show ?thesis
    using assms by (simp add: take_overwrite)
qed

lemma window_overwrite_after [wire_simps]:
  "off + length ys \<le> m \<Longrightarrow> off + length ys \<le> length xs \<Longrightarrow>
   window m n (overwrite off ys xs) = window m n xs"
  by (simp add: window_def drop_overwrite)

lemma overwrite_window [wire_simps]: "off + n \<le> length xs \<Longrightarrow> overwrite off (window off n xs) xs = xs"
  by (simp add: overwrite_def window_def flip: append_assoc take_add)

text \<open>A packet is its parts: the bytes before, inside and after a window.\<close>

lemma split_window: "xs = take off xs @ window off n xs @ drop (off + n) xs"
  by (simp add: window_def flip: append_assoc take_add)

lemma overwrite_drop:
  assumes "k \<le> off" and "off + length ys \<le> length xs"
  shows "drop k (overwrite off ys xs) = overwrite (off - k) ys (drop k xs)"
  using assms by (simp add: overwrite_def drop_take min_def)

lemma overwrite_append_right:
  "off + length ys \<le> length xs \<Longrightarrow> overwrite (length pre + off) ys (pre @ xs) = pre @ overwrite off ys xs"
  by (simp add: overwrite_def add.assoc)

lemma take_eq_mono: "take n xs = take n ys \<Longrightarrow> m \<le> n \<Longrightarrow> take m xs = take m ys"
  by (metis min.absorb1 take_take)

section \<open>Words and their bytes\<close>

definition join16 :: "u8 \<Rightarrow> u8 \<Rightarrow> u16" where
  "join16 hi lo = push_bit 8 (ucast hi) OR ucast lo"

definition hi8 :: "u16 \<Rightarrow> u8" where
  "hi8 w = ucast (drop_bit 8 w)"

definition lo8 :: "u16 \<Rightarrow> u8" where
  "lo8 w = ucast w"

definition join32 :: "u16 \<Rightarrow> u16 \<Rightarrow> u32" where
  "join32 hi lo = push_bit 16 (ucast hi) OR ucast lo"

definition hi16 :: "u32 \<Rightarrow> u16" where
  "hi16 w = ucast (drop_bit 16 w)"

definition lo16 :: "u32 \<Rightarrow> u16" where
  "lo16 w = ucast w"

lemma hi8_join16 [simp]: "hi8 (join16 a b) = a"
  unfolding hi8_def join16_def
  by (rule bit_eqI) (auto simp: bit_simps dest: bit_imp_le_length)

lemma lo8_join16 [simp]: "lo8 (join16 a b) = b"
  unfolding lo8_def join16_def by (rule bit_eqI) (auto simp: bit_simps)

lemma join16_hi8_lo8 [simp]: "join16 (hi8 w) (lo8 w) = w"
  unfolding hi8_def lo8_def join16_def
  by (rule bit_eqI) (auto simp: bit_simps dest: bit_imp_le_length)

lemma hi16_join32 [simp]: "hi16 (join32 a b) = a"
  unfolding hi16_def join32_def
  by (rule bit_eqI) (auto simp: bit_simps dest: bit_imp_le_length)

lemma lo16_join32 [simp]: "lo16 (join32 a b) = b"
  unfolding lo16_def join32_def by (rule bit_eqI) (auto simp: bit_simps)

lemma join32_hi16_lo16 [simp]: "join32 (hi16 w) (lo16 w) = w"
  unfolding hi16_def lo16_def join32_def
  by (rule bit_eqI) (auto simp: bit_simps dest: bit_imp_le_length)

lemma join16_inject [simp]: "join16 a b = join16 c d \<longleftrightarrow> a = c \<and> b = d"
  by (metis hi8_join16 lo8_join16)

lemma join32_inject [simp]: "join32 a b = join32 c d \<longleftrightarrow> a = c \<and> b = d"
  by (metis hi16_join32 lo16_join32)

lemma unat_join16 [word_join_simps]: "unat (join16 a b) = 256 * unat a + unat b"
proof -
  have "push_bit 8 (ucast a) OR ucast b = push_bit 8 (ucast a) + (ucast b :: u16)"
    by (rule disjunctive_add [symmetric]) (auto simp: bit_simps dest: bit_imp_le_length)
  moreover note unat_u8_less [of a] unat_u8_less [of b]
  ultimately show ?thesis
    by (simp add: join16_def unat_word_ariths push_bit_eq_mult unsigned_ucast_eq take_bit_eq_mod)
qed

lemma unat_join32 [word_join_simps]: "unat (join32 a b) = 65536 * unat a + unat b"
proof -
  have "push_bit 16 (ucast a) OR ucast b = push_bit 16 (ucast a) + (ucast b :: u32)"
    by (rule disjunctive_add [symmetric]) (auto simp: bit_simps dest: bit_imp_le_length)
  moreover note unat_u16_less [of a] unat_u16_less [of b]
  ultimately show ?thesis
    by (simp add: join32_def unat_word_ariths push_bit_eq_mult unsigned_ucast_eq take_bit_eq_mod)
qed

lemma join16_zero [simp]: "join16 0 0 = 0"
  by (simp add: join16_def)

lemma hi8_0 [simp]: "hi8 0 = 0"
  by (simp add: hi8_def)

lemma lo8_0 [simp]: "lo8 0 = 0"
  by (simp add: lo8_def)

lemma join16_eq_zero_iff: "join16 a b = 0 \<longleftrightarrow> a = 0 \<and> b = 0"
  by (metis join16_inject join16_zero)

section \<open>Ones' complement congruence\<close>

definition eqc :: "int \<Rightarrow> int \<Rightarrow> bool" where
  "eqc a b \<longleftrightarrow> 65535 dvd (a - b)"

lemma eqc_refl [simp, intro]: "eqc a a"
  by (simp add: eqc_def)

lemma eqc_sym: "eqc a b \<Longrightarrow> eqc b a"
  by (simp add: eqc_def dvd_diff_commute)

lemma eqc_trans [trans]: "eqc a b \<Longrightarrow> eqc b c \<Longrightarrow> eqc a c"
  unfolding eqc_def using dvd_add [of 65535 "a - b" "b - c"] by simp

lemma eqc_add: "eqc a b \<Longrightarrow> eqc c d \<Longrightarrow> eqc (a + c) (b + d)"
  unfolding eqc_def using dvd_add [of 65535 "a - b" "c - d"] by (simp add: algebra_simps)

lemma eqc_diff: "eqc a b \<Longrightarrow> eqc c d \<Longrightarrow> eqc (a - c) (b - d)"
  unfolding eqc_def using dvd_diff [of 65535 "a - b" "c - d"] by (simp add: algebra_simps)

lemma eqc_mult: "eqc a b \<Longrightarrow> eqc (k * a) (k * b)"
  unfolding eqc_def using dvd_mult [of 65535 "a - b" k] by (simp add: algebra_simps)

lemma eqc_mod_iff: "eqc a b \<longleftrightarrow> a mod 65535 = b mod 65535"
  by (simp add: eqc_def mod_eq_dvd_iff)

lemma eqc_mod [simp]: "eqc (a mod 65535) b \<longleftrightarrow> eqc a b"
  by (simp add: eqc_mod_iff)

text \<open>The multiples of \<open>65535\<close> are the neutral element.\<close>

lemma eqc_65535 [simp]: "eqc (65535 * k) 0"
  by (simp add: eqc_def)

lemma eqc_zero_mod: "eqc (int n) 0 \<longleftrightarrow> n mod 65535 = 0"
proof -
  have "int n mod 65535 = int (n mod 65535)" by (simp add: zmod_int)
  then show ?thesis by (simp add: eqc_mod_iff)
qed

text \<open>Swapping the bytes of every 16-bit word multiplies by the unit \<open>256\<close>.\<close>

lemma eqc_swap_unit: "eqc (256 * (256 * a)) a"
proof -
  have "256 * (256 * a) - a = 65535 * a" by simp
  then show ?thesis by (simp add: eqc_def)
qed

lemma eqc_swap_iff: "eqc (256 * a) 0 \<longleftrightarrow> eqc a 0"
proof
  assume "eqc (256 * a) 0"
  then have "eqc (256 * (256 * a)) (256 * 0)" by (rule eqc_mult)
  then have "eqc (256 * (256 * a)) 0" by simp
  with eqc_sym [OF eqc_swap_unit] show "eqc a 0" by (rule eqc_trans)
next
  assume "eqc a 0"
  then show "eqc (256 * a) 0" using eqc_mult [of a 0 256] by simp
qed

end
