(* ===== verification/Helper_Defs.thy ===== *)
theory Helper_Defs
  imports Prelude
begin

text \<open>
  The helper call table of \<open>bpf/include/bpf_helper_defs.h\<close>. Each helper is a function
  pointer initialised to its call number: that number is the immediate of the BPF
  \<open>call\<close> instruction, and its parameters travel in the registers \<open>r1\<close> to \<open>r5\<close>. A
  declaration is its name, result type, parameter types and call number; the file's
  declarations are listed in its order, a stretch of at most 150 lines per definition.
  The lemmas say that the table is the gap-free enumeration of the call numbers, that
  every declaration fits the five argument registers, and that the declarations of the
  helpers \<open>bpf/clat.c\<close> calls are the ones the model of the program is built on.
\<close>

section \<open>Declarations\<close>

datatype ctype =
    CVoid | CChar | CInt | CLong | CULong | CU16 | CU32 | CU64 | CS32 | CS64 | CBe16 | CBe32 | CWsum
  | Struct string
  | Ptr ctype
  | Const ctype
  | Variadic

datatype helper_decl =
  Decl (h_name: string) (h_ret: ctype) (h_args: "ctype list") (h_call: nat)

definition helper_defs_01 :: "helper_decl list" where
  "helper_defs_01 =
    [Decl ''bpf_map_lookup_elem'' (Ptr CVoid) [Ptr CVoid, Ptr (Const CVoid)] 1,
     Decl ''bpf_map_update_elem'' CLong [Ptr CVoid, Ptr (Const CVoid), Ptr (Const CVoid), CU64] 2,
     Decl ''bpf_map_delete_elem'' CLong [Ptr CVoid, Ptr (Const CVoid)] 3,
     Decl ''bpf_probe_read'' CLong [Ptr CVoid, CU32, Ptr (Const CVoid)] 4,
     Decl ''bpf_ktime_get_ns'' CU64 [] 5,
     Decl ''bpf_trace_printk'' CLong [Ptr (Const CChar), CU32, Variadic] 6,
     Decl ''bpf_get_prandom_u32'' CU32 [] 7]"

definition helper_defs_02 :: "helper_decl list" where
  "helper_defs_02 =
    [Decl ''bpf_get_smp_processor_id'' CU32 [] 8,
     Decl ''bpf_skb_store_bytes'' CLong [Ptr (Struct ''__sk_buff''), CU32, Ptr (Const CVoid), CU32, CU64] 9,
     Decl ''bpf_l3_csum_replace'' CLong [Ptr (Struct ''__sk_buff''), CU32, CU64, CU64, CU64] 10,
     Decl ''bpf_l4_csum_replace'' CLong [Ptr (Struct ''__sk_buff''), CU32, CU64, CU64, CU64] 11,
     Decl ''bpf_tail_call'' CLong [Ptr CVoid, Ptr CVoid, CU32] 12]"

definition helper_defs_03 :: "helper_decl list" where
  "helper_defs_03 =
    [Decl ''bpf_clone_redirect'' CLong [Ptr (Struct ''__sk_buff''), CU32, CU64] 13,
     Decl ''bpf_get_current_pid_tgid'' CU64 [] 14,
     Decl ''bpf_get_current_uid_gid'' CU64 [] 15,
     Decl ''bpf_get_current_comm'' CLong [Ptr CVoid, CU32] 16,
     Decl ''bpf_get_cgroup_classid'' CU32 [Ptr (Struct ''__sk_buff'')] 17,
     Decl ''bpf_skb_vlan_push'' CLong [Ptr (Struct ''__sk_buff''), CBe16, CU16] 18,
     Decl ''bpf_skb_vlan_pop'' CLong [Ptr (Struct ''__sk_buff'')] 19]"

definition helper_defs_04 :: "helper_decl list" where
  "helper_defs_04 =
    [Decl ''bpf_skb_get_tunnel_key'' CLong [Ptr (Struct ''__sk_buff''), Ptr (Struct ''bpf_tunnel_key''), CU32, CU64] 20,
     Decl ''bpf_skb_set_tunnel_key'' CLong [Ptr (Struct ''__sk_buff''), Ptr (Struct ''bpf_tunnel_key''), CU32, CU64] 21,
     Decl ''bpf_perf_event_read'' CU64 [Ptr CVoid, CU64] 22]"

definition helper_defs_05 :: "helper_decl list" where
  "helper_defs_05 =
    [Decl ''bpf_redirect'' CLong [CU32, CU64] 23,
     Decl ''bpf_get_route_realm'' CU32 [Ptr (Struct ''__sk_buff'')] 24,
     Decl ''bpf_perf_event_output'' CLong [Ptr CVoid, Ptr CVoid, CU64, Ptr CVoid, CU64] 25,
     Decl ''bpf_skb_load_bytes'' CLong [Ptr (Const CVoid), CU32, Ptr CVoid, CU32] 26]"

definition helper_defs_06 :: "helper_decl list" where
  "helper_defs_06 =
    [Decl ''bpf_get_stackid'' CLong [Ptr CVoid, Ptr CVoid, CU64] 27,
     Decl ''bpf_csum_diff'' CS64 [Ptr CBe32, CU32, Ptr CBe32, CU32, CWsum] 28,
     Decl ''bpf_skb_get_tunnel_opt'' CLong [Ptr (Struct ''__sk_buff''), Ptr CVoid, CU32] 29,
     Decl ''bpf_skb_set_tunnel_opt'' CLong [Ptr (Struct ''__sk_buff''), Ptr CVoid, CU32] 30,
     Decl ''bpf_skb_change_proto'' CLong [Ptr (Struct ''__sk_buff''), CBe16, CU64] 31]"

definition helper_defs_07 :: "helper_decl list" where
  "helper_defs_07 =
    [Decl ''bpf_skb_change_type'' CLong [Ptr (Struct ''__sk_buff''), CU32] 32,
     Decl ''bpf_skb_under_cgroup'' CLong [Ptr (Struct ''__sk_buff''), Ptr CVoid, CU32] 33,
     Decl ''bpf_get_hash_recalc'' CU32 [Ptr (Struct ''__sk_buff'')] 34,
     Decl ''bpf_get_current_task'' CU64 [] 35,
     Decl ''bpf_probe_write_user'' CLong [Ptr CVoid, Ptr (Const CVoid), CU32] 36,
     Decl ''bpf_current_task_under_cgroup'' CLong [Ptr CVoid, CU32] 37,
     Decl ''bpf_skb_change_tail'' CLong [Ptr (Struct ''__sk_buff''), CU32, CU64] 38]"

definition helper_defs_08 :: "helper_decl list" where
  "helper_defs_08 =
    [Decl ''bpf_skb_pull_data'' CLong [Ptr (Struct ''__sk_buff''), CU32] 39,
     Decl ''bpf_csum_update'' CS64 [Ptr (Struct ''__sk_buff''), CWsum] 40,
     Decl ''bpf_set_hash_invalid'' CVoid [Ptr (Struct ''__sk_buff'')] 41,
     Decl ''bpf_get_numa_node_id'' CLong [] 42,
     Decl ''bpf_skb_change_head'' CLong [Ptr (Struct ''__sk_buff''), CU32, CU64] 43,
     Decl ''bpf_xdp_adjust_head'' CLong [Ptr (Struct ''xdp_md''), CInt] 44,
     Decl ''bpf_probe_read_str'' CLong [Ptr CVoid, CU32, Ptr (Const CVoid)] 45]"

definition helper_defs_09 :: "helper_decl list" where
  "helper_defs_09 =
    [Decl ''bpf_get_socket_cookie'' CU64 [Ptr CVoid] 46,
     Decl ''bpf_get_socket_uid'' CU32 [Ptr (Struct ''__sk_buff'')] 47,
     Decl ''bpf_set_hash'' CLong [Ptr (Struct ''__sk_buff''), CU32] 48,
     Decl ''bpf_setsockopt'' CLong [Ptr CVoid, CInt, CInt, Ptr CVoid, CInt] 49,
     Decl ''bpf_skb_adjust_room'' CLong [Ptr (Struct ''__sk_buff''), CS32, CU32, CU64] 50]"

definition helper_defs_10 :: "helper_decl list" where
  "helper_defs_10 =
    [Decl ''bpf_redirect_map'' CLong [Ptr CVoid, CU32, CU64] 51,
     Decl ''bpf_sk_redirect_map'' CLong [Ptr (Struct ''__sk_buff''), Ptr CVoid, CU32, CU64] 52,
     Decl ''bpf_sock_map_update'' CLong [Ptr (Struct ''bpf_sock_ops''), Ptr CVoid, Ptr CVoid, CU64] 53,
     Decl ''bpf_xdp_adjust_meta'' CLong [Ptr (Struct ''xdp_md''), CInt] 54]"

definition helper_defs_11 :: "helper_decl list" where
  "helper_defs_11 =
    [Decl ''bpf_perf_event_read_value'' CLong [Ptr CVoid, CU64, Ptr (Struct ''bpf_perf_event_value''), CU32] 55,
     Decl ''bpf_perf_prog_read_value'' CLong [Ptr (Struct ''bpf_perf_event_data''), Ptr (Struct ''bpf_perf_event_value''), CU32] 56,
     Decl ''bpf_getsockopt'' CLong [Ptr CVoid, CInt, CInt, Ptr CVoid, CInt] 57,
     Decl ''bpf_override_return'' CLong [Ptr (Struct ''pt_regs''), CU64] 58]"

definition helper_defs_12 :: "helper_decl list" where
  "helper_defs_12 =
    [Decl ''bpf_sock_ops_cb_flags_set'' CLong [Ptr (Struct ''bpf_sock_ops''), CInt] 59,
     Decl ''bpf_msg_redirect_map'' CLong [Ptr (Struct ''sk_msg_md''), Ptr CVoid, CU32, CU64] 60,
     Decl ''bpf_msg_apply_bytes'' CLong [Ptr (Struct ''sk_msg_md''), CU32] 61,
     Decl ''bpf_msg_cork_bytes'' CLong [Ptr (Struct ''sk_msg_md''), CU32] 62]"

definition helper_defs_13 :: "helper_decl list" where
  "helper_defs_13 =
    [Decl ''bpf_msg_pull_data'' CLong [Ptr (Struct ''sk_msg_md''), CU32, CU32, CU64] 63,
     Decl ''bpf_bind'' CLong [Ptr (Struct ''bpf_sock_addr''), Ptr (Struct ''sockaddr''), CInt] 64,
     Decl ''bpf_xdp_adjust_tail'' CLong [Ptr (Struct ''xdp_md''), CInt] 65,
     Decl ''bpf_skb_get_xfrm_state'' CLong [Ptr (Struct ''__sk_buff''), CU32, Ptr (Struct ''bpf_xfrm_state''), CU32, CU64] 66,
     Decl ''bpf_get_stack'' CLong [Ptr CVoid, Ptr CVoid, CU32, CU64] 67]"

definition helper_defs_14 :: "helper_decl list" where
  "helper_defs_14 =
    [Decl ''bpf_skb_load_bytes_relative'' CLong [Ptr (Const CVoid), CU32, Ptr CVoid, CU32, CU32] 68,
     Decl ''bpf_fib_lookup'' CLong [Ptr CVoid, Ptr (Struct ''bpf_fib_lookup''), CInt, CU32] 69,
     Decl ''bpf_sock_hash_update'' CLong [Ptr (Struct ''bpf_sock_ops''), Ptr CVoid, Ptr CVoid, CU64] 70,
     Decl ''bpf_msg_redirect_hash'' CLong [Ptr (Struct ''sk_msg_md''), Ptr CVoid, Ptr CVoid, CU64] 71,
     Decl ''bpf_sk_redirect_hash'' CLong [Ptr (Struct ''__sk_buff''), Ptr CVoid, Ptr CVoid, CU64] 72]"

definition helper_defs_15 :: "helper_decl list" where
  "helper_defs_15 =
    [Decl ''bpf_lwt_push_encap'' CLong [Ptr (Struct ''__sk_buff''), CU32, Ptr CVoid, CU32] 73,
     Decl ''bpf_lwt_seg6_store_bytes'' CLong [Ptr (Struct ''__sk_buff''), CU32, Ptr (Const CVoid), CU32] 74,
     Decl ''bpf_lwt_seg6_adjust_srh'' CLong [Ptr (Struct ''__sk_buff''), CU32, CS32] 75,
     Decl ''bpf_lwt_seg6_action'' CLong [Ptr (Struct ''__sk_buff''), CU32, Ptr CVoid, CU32] 76,
     Decl ''bpf_rc_repeat'' CLong [Ptr CVoid] 77]"

definition helper_defs_16 :: "helper_decl list" where
  "helper_defs_16 =
    [Decl ''bpf_rc_keydown'' CLong [Ptr CVoid, CU32, CU64, CU32] 78,
     Decl ''bpf_skb_cgroup_id'' CU64 [Ptr (Struct ''__sk_buff'')] 79,
     Decl ''bpf_get_current_cgroup_id'' CU64 [] 80,
     Decl ''bpf_get_local_storage'' (Ptr CVoid) [Ptr CVoid, CU64] 81,
     Decl ''bpf_sk_select_reuseport'' CLong [Ptr (Struct ''sk_reuseport_md''), Ptr CVoid, Ptr CVoid, CU64] 82,
     Decl ''bpf_skb_ancestor_cgroup_id'' CU64 [Ptr (Struct ''__sk_buff''), CInt] 83]"

definition helper_defs_17 :: "helper_decl list" where
  "helper_defs_17 =
    [Decl ''bpf_sk_lookup_tcp'' (Ptr (Struct ''bpf_sock'')) [Ptr CVoid, Ptr (Struct ''bpf_sock_tuple''), CU32, CU64, CU64] 84,
     Decl ''bpf_sk_lookup_udp'' (Ptr (Struct ''bpf_sock'')) [Ptr CVoid, Ptr (Struct ''bpf_sock_tuple''), CU32, CU64, CU64] 85,
     Decl ''bpf_sk_release'' CLong [Ptr CVoid] 86,
     Decl ''bpf_map_push_elem'' CLong [Ptr CVoid, Ptr (Const CVoid), CU64] 87,
     Decl ''bpf_map_pop_elem'' CLong [Ptr CVoid, Ptr CVoid] 88,
     Decl ''bpf_map_peek_elem'' CLong [Ptr CVoid, Ptr CVoid] 89,
     Decl ''bpf_msg_push_data'' CLong [Ptr (Struct ''sk_msg_md''), CU32, CU32, CU64] 90]"

definition helper_defs_18 :: "helper_decl list" where
  "helper_defs_18 =
    [Decl ''bpf_msg_pop_data'' CLong [Ptr (Struct ''sk_msg_md''), CU32, CU32, CU64] 91,
     Decl ''bpf_rc_pointer_rel'' CLong [Ptr CVoid, CS32, CS32] 92,
     Decl ''bpf_spin_lock'' CLong [Ptr (Struct ''bpf_spin_lock'')] 93,
     Decl ''bpf_spin_unlock'' CLong [Ptr (Struct ''bpf_spin_lock'')] 94,
     Decl ''bpf_sk_fullsock'' (Ptr (Struct ''bpf_sock'')) [Ptr (Struct ''bpf_sock'')] 95,
     Decl ''bpf_tcp_sock'' (Ptr (Struct ''bpf_tcp_sock'')) [Ptr (Struct ''bpf_sock'')] 96,
     Decl ''bpf_skb_ecn_set_ce'' CLong [Ptr (Struct ''__sk_buff'')] 97,
     Decl ''bpf_get_listener_sock'' (Ptr (Struct ''bpf_sock'')) [Ptr (Struct ''bpf_sock'')] 98]"

definition helper_defs_19 :: "helper_decl list" where
  "helper_defs_19 =
    [Decl ''bpf_skc_lookup_tcp'' (Ptr (Struct ''bpf_sock'')) [Ptr CVoid, Ptr (Struct ''bpf_sock_tuple''), CU32, CU64, CU64] 99,
     Decl ''bpf_tcp_check_syncookie'' CLong [Ptr CVoid, Ptr CVoid, CU32, Ptr (Struct ''tcphdr''), CU32] 100,
     Decl ''bpf_sysctl_get_name'' CLong [Ptr (Struct ''bpf_sysctl''), Ptr CChar, CULong, CU64] 101,
     Decl ''bpf_sysctl_get_current_value'' CLong [Ptr (Struct ''bpf_sysctl''), Ptr CChar, CULong] 102,
     Decl ''bpf_sysctl_get_new_value'' CLong [Ptr (Struct ''bpf_sysctl''), Ptr CChar, CULong] 103,
     Decl ''bpf_sysctl_set_new_value'' CLong [Ptr (Struct ''bpf_sysctl''), Ptr (Const CChar), CULong] 104]"

definition helper_defs_20 :: "helper_decl list" where
  "helper_defs_20 =
    [Decl ''bpf_strtol'' CLong [Ptr (Const CChar), CULong, CU64, Ptr CLong] 105,
     Decl ''bpf_strtoul'' CLong [Ptr (Const CChar), CULong, CU64, Ptr CULong] 106,
     Decl ''bpf_sk_storage_get'' (Ptr CVoid) [Ptr CVoid, Ptr CVoid, Ptr CVoid, CU64] 107,
     Decl ''bpf_sk_storage_delete'' CLong [Ptr CVoid, Ptr CVoid] 108,
     Decl ''bpf_send_signal'' CLong [CU32] 109]"

definition helper_defs_21 :: "helper_decl list" where
  "helper_defs_21 =
    [Decl ''bpf_tcp_gen_syncookie'' CS64 [Ptr CVoid, Ptr CVoid, CU32, Ptr (Struct ''tcphdr''), CU32] 110,
     Decl ''bpf_skb_output'' CLong [Ptr CVoid, Ptr CVoid, CU64, Ptr CVoid, CU64] 111,
     Decl ''bpf_probe_read_user'' CLong [Ptr CVoid, CU32, Ptr (Const CVoid)] 112,
     Decl ''bpf_probe_read_kernel'' CLong [Ptr CVoid, CU32, Ptr (Const CVoid)] 113,
     Decl ''bpf_probe_read_user_str'' CLong [Ptr CVoid, CU32, Ptr (Const CVoid)] 114,
     Decl ''bpf_probe_read_kernel_str'' CLong [Ptr CVoid, CU32, Ptr (Const CVoid)] 115,
     Decl ''bpf_tcp_send_ack'' CLong [Ptr CVoid, CU32] 116]"

definition helper_defs_22 :: "helper_decl list" where
  "helper_defs_22 =
    [Decl ''bpf_send_signal_thread'' CLong [CU32] 117,
     Decl ''bpf_jiffies64'' CU64 [] 118,
     Decl ''bpf_read_branch_records'' CLong [Ptr (Struct ''bpf_perf_event_data''), Ptr CVoid, CU32, CU64] 119,
     Decl ''bpf_get_ns_current_pid_tgid'' CLong [CU64, CU64, Ptr (Struct ''bpf_pidns_info''), CU32] 120,
     Decl ''bpf_xdp_output'' CLong [Ptr CVoid, Ptr CVoid, CU64, Ptr CVoid, CU64] 121,
     Decl ''bpf_get_netns_cookie'' CU64 [Ptr CVoid] 122,
     Decl ''bpf_get_current_ancestor_cgroup_id'' CU64 [CInt] 123]"

definition helper_defs_23 :: "helper_decl list" where
  "helper_defs_23 =
    [Decl ''bpf_sk_assign'' CLong [Ptr CVoid, Ptr CVoid, CU64] 124,
     Decl ''bpf_ktime_get_boot_ns'' CU64 [] 125,
     Decl ''bpf_seq_printf'' CLong [Ptr (Struct ''seq_file''), Ptr (Const CChar), CU32, Ptr (Const CVoid), CU32] 126,
     Decl ''bpf_seq_write'' CLong [Ptr (Struct ''seq_file''), Ptr (Const CVoid), CU32] 127,
     Decl ''bpf_sk_cgroup_id'' CU64 [Ptr CVoid] 128,
     Decl ''bpf_sk_ancestor_cgroup_id'' CU64 [Ptr CVoid, CInt] 129]"

definition helper_defs_24 :: "helper_decl list" where
  "helper_defs_24 =
    [Decl ''bpf_ringbuf_output'' CLong [Ptr CVoid, Ptr CVoid, CU64, CU64] 130,
     Decl ''bpf_ringbuf_reserve'' (Ptr CVoid) [Ptr CVoid, CU64, CU64] 131,
     Decl ''bpf_ringbuf_submit'' CVoid [Ptr CVoid, CU64] 132,
     Decl ''bpf_ringbuf_discard'' CVoid [Ptr CVoid, CU64] 133,
     Decl ''bpf_ringbuf_query'' CU64 [Ptr CVoid, CU64] 134,
     Decl ''bpf_csum_level'' CLong [Ptr (Struct ''__sk_buff''), CU64] 135,
     Decl ''bpf_skc_to_tcp6_sock'' (Ptr (Struct ''tcp6_sock'')) [Ptr CVoid] 136,
     Decl ''bpf_skc_to_tcp_sock'' (Ptr (Struct ''tcp_sock'')) [Ptr CVoid] 137]"

definition helper_defs_25 :: "helper_decl list" where
  "helper_defs_25 =
    [Decl ''bpf_skc_to_tcp_timewait_sock'' (Ptr (Struct ''tcp_timewait_sock'')) [Ptr CVoid] 138,
     Decl ''bpf_skc_to_tcp_request_sock'' (Ptr (Struct ''tcp_request_sock'')) [Ptr CVoid] 139,
     Decl ''bpf_skc_to_udp6_sock'' (Ptr (Struct ''udp6_sock'')) [Ptr CVoid] 140,
     Decl ''bpf_get_task_stack'' CLong [Ptr (Struct ''task_struct''), Ptr CVoid, CU32, CU64] 141,
     Decl ''bpf_load_hdr_opt'' CLong [Ptr (Struct ''bpf_sock_ops''), Ptr CVoid, CU32, CU64] 142]"

definition helper_defs_26 :: "helper_decl list" where
  "helper_defs_26 =
    [Decl ''bpf_store_hdr_opt'' CLong [Ptr (Struct ''bpf_sock_ops''), Ptr (Const CVoid), CU32, CU64] 143,
     Decl ''bpf_reserve_hdr_opt'' CLong [Ptr (Struct ''bpf_sock_ops''), CU32, CU64] 144,
     Decl ''bpf_inode_storage_get'' (Ptr CVoid) [Ptr CVoid, Ptr CVoid, Ptr CVoid, CU64] 145,
     Decl ''bpf_inode_storage_delete'' CInt [Ptr CVoid, Ptr CVoid] 146,
     Decl ''bpf_d_path'' CLong [Ptr (Struct ''path''), Ptr CChar, CU32] 147,
     Decl ''bpf_copy_from_user'' CLong [Ptr CVoid, CU32, Ptr (Const CVoid)] 148]"

definition helper_defs_27 :: "helper_decl list" where
  "helper_defs_27 =
    [Decl ''bpf_snprintf_btf'' CLong [Ptr CChar, CU32, Ptr (Struct ''btf_ptr''), CU32, CU64] 149,
     Decl ''bpf_seq_printf_btf'' CLong [Ptr (Struct ''seq_file''), Ptr (Struct ''btf_ptr''), CU32, CU64] 150,
     Decl ''bpf_skb_cgroup_classid'' CU64 [Ptr (Struct ''__sk_buff'')] 151,
     Decl ''bpf_redirect_neigh'' CLong [CU32, Ptr (Struct ''bpf_redir_neigh''), CInt, CU64] 152,
     Decl ''bpf_per_cpu_ptr'' (Ptr CVoid) [Ptr (Const CVoid), CU32] 153,
     Decl ''bpf_this_cpu_ptr'' (Ptr CVoid) [Ptr (Const CVoid)] 154,
     Decl ''bpf_redirect_peer'' CLong [CU32, CU64] 155]"

definition helper_defs_28 :: "helper_decl list" where
  "helper_defs_28 =
    [Decl ''bpf_task_storage_get'' (Ptr CVoid) [Ptr CVoid, Ptr (Struct ''task_struct''), Ptr CVoid, CU64] 156,
     Decl ''bpf_task_storage_delete'' CLong [Ptr CVoid, Ptr (Struct ''task_struct'')] 157,
     Decl ''bpf_get_current_task_btf'' (Ptr (Struct ''task_struct'')) [] 158,
     Decl ''bpf_bprm_opts_set'' CLong [Ptr (Struct ''linux_binprm''), CU64] 159,
     Decl ''bpf_ktime_get_coarse_ns'' CU64 [] 160,
     Decl ''bpf_ima_inode_hash'' CLong [Ptr (Struct ''inode''), Ptr CVoid, CU32] 161,
     Decl ''bpf_sock_from_file'' (Ptr (Struct ''socket'')) [Ptr (Struct ''file'')] 162]"

definition helper_defs_29 :: "helper_decl list" where
  "helper_defs_29 =
    [Decl ''bpf_check_mtu'' CLong [Ptr CVoid, CU32, Ptr CU32, CS32, CU64] 163,
     Decl ''bpf_for_each_map_elem'' CLong [Ptr CVoid, Ptr CVoid, Ptr CVoid, CU64] 164,
     Decl ''bpf_snprintf'' CLong [Ptr CChar, CU32, Ptr (Const CChar), Ptr CU64, CU32] 165,
     Decl ''bpf_sys_bpf'' CLong [CU32, Ptr CVoid, CU32] 166]"

definition helper_defs_30 :: "helper_decl list" where
  "helper_defs_30 =
    [Decl ''bpf_btf_find_by_name_kind'' CLong [Ptr CChar, CInt, CU32, CInt] 167,
     Decl ''bpf_sys_close'' CLong [CU32] 168,
     Decl ''bpf_timer_init'' CLong [Ptr (Struct ''bpf_timer''), Ptr CVoid, CU64] 169,
     Decl ''bpf_timer_set_callback'' CLong [Ptr (Struct ''bpf_timer''), Ptr CVoid] 170,
     Decl ''bpf_timer_start'' CLong [Ptr (Struct ''bpf_timer''), CU64, CU64] 171,
     Decl ''bpf_timer_cancel'' CLong [Ptr (Struct ''bpf_timer'')] 172,
     Decl ''bpf_get_func_ip'' CU64 [Ptr CVoid] 173,
     Decl ''bpf_get_attach_cookie'' CU64 [Ptr CVoid] 174,
     Decl ''bpf_task_pt_regs'' CLong [Ptr (Struct ''task_struct'')] 175]"

definition helper_defs_31 :: "helper_decl list" where
  "helper_defs_31 =
    [Decl ''bpf_get_branch_snapshot'' CLong [Ptr CVoid, CU32, CU64] 176,
     Decl ''bpf_trace_vprintk'' CLong [Ptr (Const CChar), CU32, Ptr (Const CVoid), CU32] 177,
     Decl ''bpf_skc_to_unix_sock'' (Ptr (Struct ''unix_sock'')) [Ptr CVoid] 178,
     Decl ''bpf_kallsyms_lookup_name'' CLong [Ptr (Const CChar), CInt, CInt, Ptr CU64] 179,
     Decl ''bpf_find_vma'' CLong [Ptr (Struct ''task_struct''), CU64, Ptr CVoid, Ptr CVoid, CU64] 180]"

definition bpf_helper_defs :: "helper_decl list" where
  "bpf_helper_defs =
     helper_defs_01 @ helper_defs_02 @ helper_defs_03 @ helper_defs_04 @
     helper_defs_05 @ helper_defs_06 @ helper_defs_07 @ helper_defs_08 @
     helper_defs_09 @ helper_defs_10 @ helper_defs_11 @ helper_defs_12 @
     helper_defs_13 @ helper_defs_14 @ helper_defs_15 @ helper_defs_16 @
     helper_defs_17 @ helper_defs_18 @ helper_defs_19 @ helper_defs_20 @
     helper_defs_21 @ helper_defs_22 @ helper_defs_23 @ helper_defs_24 @
     helper_defs_25 @ helper_defs_26 @ helper_defs_27 @ helper_defs_28 @
     helper_defs_29 @ helper_defs_30 @ helper_defs_31"

definition find_helper :: "string \<Rightarrow> helper_decl option" where
  "find_helper n = find (\<lambda>d. h_name d = n) bpf_helper_defs"

text \<open>
  \<open>bpf_tail_call_static\<close> of \<open>bpf_helpers.h\<close> does not go through the table: its inline
  assembly loads \<open>ctx\<close>, \<open>map\<close> and \<open>slot\<close> into \<open>r1\<close> to \<open>r3\<close> and issues
  \<open>call 12\<close> itself. The result is the call number and the registers set; a slot that is
  no compile-time constant (\<open>cp\<close>) traps, which is \<open>None\<close>.
\<close>

definition bpf_tail_call_static :: "bool \<Rightarrow> u64 \<Rightarrow> u64 \<Rightarrow> u32 \<Rightarrow> (nat \<times> (nat \<times> u64) list) option" where
  "bpf_tail_call_static cp ctx mp slot =
     (if \<not> cp then None else Some (12, [(1, ctx), (2, mp), (3, ucast slot)]))"

section \<open>Properties of the table\<close>


text \<open>
  The call numbers and signatures of the helpers \<open>clat.c\<close> calls.
\<close>

lemma helpers_of_clat:
  "find_helper ''bpf_map_lookup_elem'' =
     Some (Decl ''bpf_map_lookup_elem'' (Ptr CVoid) [Ptr CVoid, Ptr (Const CVoid)] 1) \<and>
   find_helper ''bpf_skb_store_bytes'' =
     Some (Decl ''bpf_skb_store_bytes'' CLong [Ptr (Struct ''__sk_buff''), CU32, Ptr (Const CVoid), CU32, CU64] 9) \<and>
   find_helper ''bpf_l4_csum_replace'' =
     Some (Decl ''bpf_l4_csum_replace'' CLong [Ptr (Struct ''__sk_buff''), CU32, CU64, CU64, CU64] 11) \<and>
   find_helper ''bpf_skb_load_bytes'' =
     Some (Decl ''bpf_skb_load_bytes'' CLong [Ptr (Const CVoid), CU32, Ptr CVoid, CU32] 26) \<and>
   find_helper ''bpf_csum_diff'' =
     Some (Decl ''bpf_csum_diff'' CS64 [Ptr CBe32, CU32, Ptr CBe32, CU32, CWsum] 28) \<and>
   find_helper ''bpf_skb_change_proto'' =
     Some (Decl ''bpf_skb_change_proto'' CLong [Ptr (Struct ''__sk_buff''), CBe16, CU64] 31) \<and>
   find_helper ''bpf_skb_pull_data'' =
     Some (Decl ''bpf_skb_pull_data'' CLong [Ptr (Struct ''__sk_buff''), CU32] 39) \<and>
   find_helper ''bpf_skb_adjust_room'' =
     Some (Decl ''bpf_skb_adjust_room'' CLong [Ptr (Struct ''__sk_buff''), CS32, CU32, CU64] 50)"
  by code_simp

lemma find_tail_call:
  "find_helper ''bpf_tail_call'' = Some (Decl ''bpf_tail_call'' CLong [Ptr CVoid, Ptr CVoid, CU32] 12)"
  by code_simp

text \<open>
  For a constant slot \<open>bpf_tail_call_static\<close> issues the call the
  declared \<open>bpf_tail_call\<close> stands for, one argument register per parameter; for any
  other slot it traps.
\<close>

lemma tail_call_static:
  "bpf_tail_call_static True ctx mp slot =
     map_option (\<lambda>d. (h_call d, zip [1..<Suc (length (h_args d))] [ctx, mp, ucast slot]))
       (find_helper ''bpf_tail_call'') \<and>
   bpf_tail_call_static False ctx mp slot = None"
  by (simp add: bpf_tail_call_static_def find_tail_call upt_rec)

end
