(* ===== verification/Endian.thy ===== *)
theory Endian
  imports Prelude
begin

text \<open>
  Byte order: the memory layout of 16 and 32 bit integers on a little- or big-endian BPF
  target, and the conversion macros of \<open>bpf/include/bpf_endian.h\<close>. The header selects
  one of two groups of macros by \<open>__BYTE_ORDER__\<close>; here the target is the argument
  \<open>e\<close>, so that every later theorem holds for the \<open>bpfel\<close> and the \<open>bpfeb\<close> build.
  The header expands a constant argument through shifts and masks and any other argument
  through a compiler builtin; the lemmas show that the two expansions agree and that
  converting to network order lays the bytes out most significant first.
\<close>

section \<open>Integers in memory\<close>

datatype byte_order = LITTLE_ENDIAN | BIG_ENDIAN

fun ld16 :: "byte_order \<Rightarrow> u8 \<Rightarrow> u8 \<Rightarrow> u16" where
  "ld16 LITTLE_ENDIAN a b = join16 b a"
| "ld16 BIG_ENDIAN a b = join16 a b"

fun st16 :: "byte_order \<Rightarrow> u16 \<Rightarrow> bytes" where
  "st16 LITTLE_ENDIAN w = [lo8 w, hi8 w]"
| "st16 BIG_ENDIAN w = [hi8 w, lo8 w]"

fun ld32 :: "byte_order \<Rightarrow> u8 \<Rightarrow> u8 \<Rightarrow> u8 \<Rightarrow> u8 \<Rightarrow> u32" where
  "ld32 LITTLE_ENDIAN a b c d = join32 (join16 d c) (join16 b a)"
| "ld32 BIG_ENDIAN a b c d = join32 (join16 a b) (join16 c d)"

fun st32 :: "byte_order \<Rightarrow> u32 \<Rightarrow> bytes" where
  "st32 LITTLE_ENDIAN w = [lo8 (lo16 w), hi8 (lo16 w), lo8 (hi16 w), hi8 (hi16 w)]"
| "st32 BIG_ENDIAN w = [hi8 (hi16 w), lo8 (hi16 w), hi8 (lo16 w), lo8 (lo16 w)]"

text \<open>The bytes of an integer in network order, on every target.\<close>

definition net16 :: "u16 \<Rightarrow> bytes" where
  "net16 w = [hi8 w, lo8 w]"

definition net32 :: "u32 \<Rightarrow> bytes" where
  "net32 w = [hi8 (hi16 w), lo8 (hi16 w), hi8 (lo16 w), lo8 (lo16 w)]"

section \<open>The conversion macros\<close>

text \<open>
  \<open>___bpf_mvb\<close> isolates byte \<open>n\<close> and moves it to byte \<open>m\<close>. For the 16-bit
  variant C promotes the operand to \<open>int\<close>, so the left shift does not drop the upper
  byte; the cast back to \<open>__u16\<close> in \<open>___bpf_swab16\<close> does.
\<close>

definition bpf_mvb16 :: "u16 \<Rightarrow> nat \<Rightarrow> nat \<Rightarrow> u32" where
  "bpf_mvb16 x n m =
     push_bit (m * 8) (drop_bit (16 - 8) (push_bit (16 - (n + 1) * 8) (ucast x)))"

definition bpf_mvb32 :: "u32 \<Rightarrow> nat \<Rightarrow> nat \<Rightarrow> u32" where
  "bpf_mvb32 x n m =
     push_bit (m * 8) (drop_bit (32 - 8) (push_bit (32 - (n + 1) * 8) x))"

definition bpf_mvb64 :: "u64 \<Rightarrow> nat \<Rightarrow> nat \<Rightarrow> u64" where
  "bpf_mvb64 x n m =
     push_bit (m * 8) (drop_bit (64 - 8) (push_bit (64 - (n + 1) * 8) x))"

definition bpf_swab16 :: "u16 \<Rightarrow> u16" where
  "bpf_swab16 x = ucast (bpf_mvb16 x 0 1 OR bpf_mvb16 x 1 0)"

definition bpf_swab32 :: "u32 \<Rightarrow> u32" where
  "bpf_swab32 x =
     bpf_mvb32 x 0 3 OR bpf_mvb32 x 1 2 OR bpf_mvb32 x 2 1 OR bpf_mvb32 x 3 0"

definition bpf_swab64 :: "u64 \<Rightarrow> u64" where
  "bpf_swab64 x =
     bpf_mvb64 x 0 7 OR bpf_mvb64 x 1 6 OR bpf_mvb64 x 2 5 OR bpf_mvb64 x 3 4 OR
     bpf_mvb64 x 4 3 OR bpf_mvb64 x 5 2 OR bpf_mvb64 x 6 1 OR bpf_mvb64 x 7 0"

text \<open>The compiler's byte swaps.\<close>

definition bswap16 :: "u16 \<Rightarrow> u16" where
  "bswap16 x = join16 (lo8 x) (hi8 x)"

definition bswap32 :: "u32 \<Rightarrow> u32" where
  "bswap32 x = join32 (bswap16 (lo16 x)) (bswap16 (hi16 x))"

definition bswap64 :: "u64 \<Rightarrow> u64" where
  "bswap64 x =
     push_bit 32 (ucast (bswap32 (ucast x))) OR ucast (bswap32 (ucast (drop_bit 32 x)))"

text \<open>
  The two groups of macros: \<open>cp\<close> is what \<open>__builtin_constant_p\<close> answers for the
  argument at compile time.
\<close>

definition bpf_htons_macro :: "bool \<Rightarrow> byte_order \<Rightarrow> u16 \<Rightarrow> u16" where
  "bpf_htons_macro cp e x =
     (case e of LITTLE_ENDIAN \<Rightarrow> if cp then bpf_swab16 x else bswap16 x
      | BIG_ENDIAN \<Rightarrow> x)"

definition bpf_ntohs_macro :: "bool \<Rightarrow> byte_order \<Rightarrow> u16 \<Rightarrow> u16" where
  "bpf_ntohs_macro cp e x =
     (case e of LITTLE_ENDIAN \<Rightarrow> if cp then bpf_swab16 x else bswap16 x
      | BIG_ENDIAN \<Rightarrow> x)"

definition bpf_htonl_macro :: "bool \<Rightarrow> byte_order \<Rightarrow> u32 \<Rightarrow> u32" where
  "bpf_htonl_macro cp e x =
     (case e of LITTLE_ENDIAN \<Rightarrow> if cp then bpf_swab32 x else bswap32 x
      | BIG_ENDIAN \<Rightarrow> x)"

definition bpf_ntohl_macro :: "bool \<Rightarrow> byte_order \<Rightarrow> u32 \<Rightarrow> u32" where
  "bpf_ntohl_macro cp e x =
     (case e of LITTLE_ENDIAN \<Rightarrow> if cp then bpf_swab32 x else bswap32 x
      | BIG_ENDIAN \<Rightarrow> x)"

definition bpf_cpu_to_be64_macro :: "bool \<Rightarrow> byte_order \<Rightarrow> u64 \<Rightarrow> u64" where
  "bpf_cpu_to_be64_macro cp e x =
     (case e of LITTLE_ENDIAN \<Rightarrow> if cp then bpf_swab64 x else bswap64 x
      | BIG_ENDIAN \<Rightarrow> x)"

definition bpf_be64_to_cpu_macro :: "bool \<Rightarrow> byte_order \<Rightarrow> u64 \<Rightarrow> u64" where
  "bpf_be64_to_cpu_macro cp e x =
     (case e of LITTLE_ENDIAN \<Rightarrow> if cp then bpf_swab64 x else bswap64 x
      | BIG_ENDIAN \<Rightarrow> x)"

text \<open>The program's conversions; by \<open>macro_expansions_agree\<close> the choice of \<open>cp\<close> is free.\<close>

definition bpf_htons :: "byte_order \<Rightarrow> u16 \<Rightarrow> u16" where
  "bpf_htons e x = bpf_htons_macro False e x"

definition bpf_ntohs :: "byte_order \<Rightarrow> u16 \<Rightarrow> u16" where
  "bpf_ntohs e x = bpf_ntohs_macro False e x"

definition bpf_htonl :: "byte_order \<Rightarrow> u32 \<Rightarrow> u32" where
  "bpf_htonl e x = bpf_htonl_macro False e x"

definition bpf_ntohl :: "byte_order \<Rightarrow> u32 \<Rightarrow> u32" where
  "bpf_ntohl e x = bpf_ntohl_macro False e x"

section \<open>Lemmas\<close>

lemma bpf_swab16_eq: "bpf_swab16 x = bswap16 x"
  unfolding bpf_swab16_def bswap16_def bpf_mvb16_def join16_def hi8_def lo8_def
  by (rule bit_eqI) (auto simp: bit_simps dest: bit_imp_le_length)

lemma byte_of_bit:
  fixes n :: nat
  assumes "n < 64"
  obtains k where "k < 8" and "n = k \<or> n = 8 + k \<or> n = 16 + k \<or> n = 24 + k \<or>
    n = 32 + k \<or> n = 40 + k \<or> n = 48 + k \<or> n = 56 + k"
proof (rule that [of "n mod 8"])
  define q r where "q = n div 8" and "r = n mod 8"
  have n: "n = 8 * q + r" by (simp add: q_def r_def)
  with assms have "q < 8" by linarith
  then have "q \<in> {0, 1, 2, 3, 4, 5, 6, 7}" by auto
  with n show "n = n mod 8 \<or> n = 8 + n mod 8 \<or> n = 16 + n mod 8 \<or> n = 24 + n mod 8 \<or>
    n = 32 + n mod 8 \<or> n = 40 + n mod 8 \<or> n = 48 + n mod 8 \<or> n = 56 + n mod 8"
    unfolding r_def [symmetric] by auto
qed simp

lemma bpf_swab32_eq: "bpf_swab32 x = bswap32 x"
proof (rule bit_word_eqI)
  fix n
  assume n: "n < LENGTH(32)"
  then have "n < 64" by simp
  then obtain k where "k < 8" and "n = k \<or> n = 8 + k \<or> n = 16 + k \<or> n = 24 + k \<or>
    n = 32 + k \<or> n = 40 + k \<or> n = 48 + k \<or> n = 56 + k" by (rule byte_of_bit)
  with n show "bit (bpf_swab32 x) n = bit (bswap32 x) n"
    unfolding bpf_swab32_def bswap32_def bswap16_def bpf_mvb32_def join16_def join32_def
      hi8_def lo8_def hi16_def lo16_def
    by (elim disjE) (auto simp: bit_simps dest: bit_imp_le_length)
qed

lemma bpf_swab64_eq: "bpf_swab64 x = bswap64 x"
proof (rule bit_word_eqI)
  fix n
  assume n: "n < LENGTH(64)"
  then have "n < 64" by simp
  then obtain k where "k < 8" and "n = k \<or> n = 8 + k \<or> n = 16 + k \<or> n = 24 + k \<or>
    n = 32 + k \<or> n = 40 + k \<or> n = 48 + k \<or> n = 56 + k" by (rule byte_of_bit)
  with n show "bit (bpf_swab64 x) n = bit (bswap64 x) n"
    unfolding bpf_swab64_def bswap64_def bswap32_def bswap16_def bpf_mvb64_def
      join16_def join32_def hi8_def lo8_def hi16_def lo16_def
    by (elim disjE) (auto simp: bit_simps dest: bit_imp_le_length)
qed

lemma bswap16_bswap16 [simp]: "bswap16 (bswap16 x) = x"
  by (simp add: bswap16_def)

lemma bswap32_bswap32 [simp]: "bswap32 (bswap32 x) = x"
  by (simp add: bswap32_def)

lemma length_st16 [simp]: "length (st16 e w) = 2"
  by (cases e) simp_all

lemma length_st32 [simp]: "length (st32 e w) = 4"
  by (cases e) simp_all

lemma length_net16 [simp]: "length (net16 w) = 2"
  by (simp add: net16_def)

lemma length_net32 [simp]: "length (net32 w) = 4"
  by (simp add: net32_def)

lemma ld16_st16 [simp]: "ld16 e (st16 e w ! 0) (st16 e w ! Suc 0) = w"
  by (cases e) simp_all

lemma ld32_st32 [simp]:
  "ld32 e (st32 e w ! 0) (st32 e w ! Suc 0) (st32 e w ! 2) (st32 e w ! 3) = w"
  by (cases e) (simp_all add: numeral_eq_Suc)

lemma st16_ld16 [simp]: "st16 e (ld16 e a b) = [a, b]"
  by (cases e) simp_all

lemma st32_ld32 [simp]: "st32 e (ld32 e a b c d) = [a, b, c, d]"
  by (cases e) simp_all

lemma ld16_zero [simp]: "ld16 e 0 0 = 0"
  by (cases e) simp_all

lemma st16_inject [simp]: "st16 e v = st16 e w \<longleftrightarrow> v = w"
  by (metis ld16_st16)

lemma st32_inject [simp]: "st32 e v = st32 e w \<longleftrightarrow> v = w"
  by (metis ld32_st32)

lemma ld16_inject [simp]: "ld16 e a b = ld16 e c d \<longleftrightarrow> a = c \<and> b = d"
  by (cases e) auto

lemma ld32_inject [simp]: "ld32 e a b c d = ld32 e a' b' c' d' \<longleftrightarrow> a = a' \<and> b = b' \<and> c = c' \<and> d = d'"
  by (cases e) auto

text \<open>What is stored after a conversion to network order is the big-endian byte string.\<close>

lemma st16_htons [simp]: "st16 e (bpf_htons e w) = net16 w"
  by (cases e) (simp_all add: bpf_htons_def bpf_htons_macro_def bswap16_def net16_def)

lemma st32_htonl [simp]: "st32 e (bpf_htonl e w) = net32 w"
  by (cases e) (simp_all add: bpf_htonl_def bpf_htonl_macro_def bswap32_def bswap16_def net32_def)

lemma ntohs_ld16 [simp]: "bpf_ntohs e (ld16 e a b) = join16 a b"
  by (cases e) (simp_all add: bpf_ntohs_def bpf_ntohs_macro_def bswap16_def)

lemma ntohl_ld32 [simp]: "bpf_ntohl e (ld32 e a b c d) = join32 (join16 a b) (join16 c d)"
  by (cases e) (simp_all add: bpf_ntohl_def bpf_ntohl_macro_def bswap32_def bswap16_def)

lemma htons_join16: "bpf_htons e (join16 a b) = ld16 e a b"
  by (cases e) (simp_all add: bpf_htons_def bpf_htons_macro_def bswap16_def)

lemma htonl_join32: "bpf_htonl e (join32 (join16 a b) (join16 c d)) = ld32 e a b c d"
  by (cases e) (simp_all add: bpf_htonl_def bpf_htonl_macro_def bswap32_def bswap16_def)

lemma ntohs_htons [simp]: "bpf_ntohs e (bpf_htons e x) = x"
  by (cases e) (simp_all add: bpf_ntohs_def bpf_htons_def bpf_ntohs_macro_def bpf_htons_macro_def)

lemma htons_ntohs [simp]: "bpf_htons e (bpf_ntohs e x) = x"
  by (cases e) (simp_all add: bpf_ntohs_def bpf_htons_def bpf_ntohs_macro_def bpf_htons_macro_def)

lemma ntohl_htonl [simp]: "bpf_ntohl e (bpf_htonl e x) = x"
  by (cases e) (simp_all add: bpf_ntohl_def bpf_htonl_def bpf_ntohl_macro_def bpf_htonl_macro_def)

lemma htonl_ntohl [simp]: "bpf_htonl e (bpf_ntohl e x) = x"
  by (cases e) (simp_all add: bpf_ntohl_def bpf_htonl_def bpf_ntohl_macro_def bpf_htonl_macro_def)

lemma htons_inject [simp]: "bpf_htons e x = bpf_htons e y \<longleftrightarrow> x = y"
  by (metis ntohs_htons)

lemma htonl_inject [simp]: "bpf_htonl e x = bpf_htonl e y \<longleftrightarrow> x = y"
  by (metis ntohl_htonl)

lemma ld16_eq_htons: "ld16 e a b = bpf_htons e w \<longleftrightarrow> join16 a b = w"
  by (metis htons_join16 ntohs_htons)

section \<open>Properties\<close>

text \<open>
  (C39) For every macro of \<open>bpf_endian.h\<close> the expansion for a
  compile-time constant, made of shifts and masks, and the expansion for any other argument,
  a compiler builtin, have the same value on both byte orders.
\<close>

theorem macro_expansions_agree:
  "bpf_htons_macro True e x = bpf_htons_macro False e x \<and>
   bpf_ntohs_macro True e x = bpf_ntohs_macro False e x \<and>
   bpf_htonl_macro True e y = bpf_htonl_macro False e y \<and>
   bpf_ntohl_macro True e y = bpf_ntohl_macro False e y \<and>
   bpf_cpu_to_be64_macro True e z = bpf_cpu_to_be64_macro False e z \<and>
   bpf_be64_to_cpu_macro True e z = bpf_be64_to_cpu_macro False e z"
  by (cases e) (simp_all add: bpf_htons_macro_def bpf_ntohs_macro_def bpf_htonl_macro_def
      bpf_ntohl_macro_def bpf_cpu_to_be64_macro_def bpf_be64_to_cpu_macro_def
      bpf_swab16_eq bpf_swab32_eq bpf_swab64_eq)

text \<open>
  (C38) On both targets \<open>bpf_htons\<close> and \<open>bpf_htonl\<close> turn a value into one
  whose memory image is the value's bytes, most significant first, and \<open>bpf_ntohs\<close> and
  \<open>bpf_ntohl\<close> read such an image back.
\<close>

theorem network_order:
  "st16 e (bpf_htons e x) = net16 x \<and> st32 e (bpf_htonl e y) = net32 y \<and>
   bpf_ntohs e (ld16 e (hi8 x) (lo8 x)) = x \<and>
   bpf_ntohl e (ld32 e (hi8 (hi16 y)) (lo8 (hi16 y)) (hi8 (lo16 y)) (lo8 (lo16 y))) = y"
  by (simp add: st16_htons st32_htonl ntohs_ld16 ntohl_ld32)

end
