(* ===== verification/Checksum.thy ===== *)
theory Checksum
  imports Endian
begin

text \<open>
  The Internet checksum. The program never sums bytes itself: it folds and complements
  32-bit partial sums (\<open>csum_fold\<close>) and packs 16-bit fields for the kernel's difference
  helper (\<open>word16\<close>). Both are modelled here as \<open>bpf/clat.c\<close> has them. The reference
  is RFC 1071: \<open>inet_sum\<close> adds big-endian 16-bit words with end-around carry, and a
  message verifies (\<open>inet_ok\<close>) when that sum is all ones. \<open>nsum\<close> is the plain sum
  of the words in the target's byte order; the bridge \<open>inet_ok_iff\<close> says that a message
  verifies exactly when \<open>nsum\<close> is a non-zero multiple of $2^{16}-1$, on either target.
\<close>

section \<open>Definitions\<close>

definition csum_fold :: "u32 \<Rightarrow> u16" where
  "csum_fold csum =
     (let s = csum;
          s = (s AND 0xffff) + drop_bit 16 s;
          s = (s AND 0xffff) + drop_bit 16 s
      in ucast (NOT s))"

definition word16 :: "byte_order \<Rightarrow> u16 \<Rightarrow> u32" where
  "word16 e v =
     (let b = overwrite 0 (st16 e v) [0, 0, 0, 0]
      in ld32 e (b ! 0) (b ! 1) (b ! 2) (b ! 3))"

text \<open>RFC 1071.\<close>

definition ones_add :: "u16 \<Rightarrow> u16 \<Rightarrow> u16" where
  "ones_add a b = (let s = a + b in if s < a then s + 1 else s)"

fun inet_sum :: "bytes \<Rightarrow> u16" where
  "inet_sum [] = 0"
| "inet_sum [a] = join16 a 0"
| "inet_sum (a # b # xs) = ones_add (join16 a b) (inet_sum xs)"

definition inet_ok :: "bytes \<Rightarrow> bool" where
  "inet_ok bs \<longleftrightarrow> inet_sum bs = 0xffff"

fun nsum :: "byte_order \<Rightarrow> bytes \<Rightarrow> nat" where
  "nsum e [] = 0"
| "nsum e [a] = unat (ld16 e a 0)"
| "nsum e (a # b # xs) = unat (ld16 e a b) + nsum e xs"

text \<open>The 16-bit ones' complement representative of a plain sum: \<open>0\<close> only for \<open>0\<close>.\<close>

definition fold1c :: "nat \<Rightarrow> nat" where
  "fold1c n = (if n = 0 then 0 else (n - 1) mod 65535 + 1)"

section \<open>Folding\<close>

lemma fold1c_le: "fold1c n \<le> 65535"
  unfolding fold1c_def using mod_less_divisor [of 65535 "n - 1"] by (simp add: Suc_le_eq)

lemma fold1c_eqc: "eqc (int (fold1c n)) (int n)"
proof (cases n)
  case (Suc m)
  have "int (m mod 65535) = int m mod 65535" by (simp add: zmod_int)
  then have "eqc (int (m mod 65535)) (int m)" by simp
  then have "eqc (int (m mod 65535) + 1) (int m + 1)" by (intro eqc_add eqc_refl)
  with Suc show ?thesis by (simp add: fold1c_def add.commute)
qed (simp add: fold1c_def)

lemma fold1c_eq_0 [simp]: "fold1c n = 0 \<longleftrightarrow> n = 0"
  by (simp add: fold1c_def)

text \<open>A representative between \<open>0\<close> and \<open>65535\<close> that is \<open>0\<close> only for \<open>0\<close> is the fold.\<close>

lemma fold1c_unique:
  assumes "m \<le> 65535" and "eqc (int m) (int n)" and "m = 0 \<longleftrightarrow> n = 0"
  shows "m = fold1c n"
proof (cases "n = 0")
  case False
  with assms(3) obtain m' n' where mn: "m = Suc m'" "n = Suc n'"
    by (metis not0_implies_Suc)
  from assms(2) have "int m' mod 65535 = int n' mod 65535"
    using eqc_diff [OF assms(2) eqc_refl [of 1]] by (simp add: mn eqc_mod_iff)
  then have "int (m' mod 65535) = int (n' mod 65535)" by (simp add: zmod_int)
  moreover have "m' < 65535" using assms(1) mn by simp
  ultimately have "m' = n' mod 65535" by simp
  then show ?thesis by (simp add: mn fold1c_def)
qed (use assms in \<open>simp add: fold1c_def\<close>)

lemma fold1c_all_ones: "fold1c n = 65535 \<longleftrightarrow> n \<noteq> 0 \<and> eqc (int n) 0"
proof
  assume r: "n \<noteq> 0 \<and> eqc (int n) 0"
  have "eqc (int 65535) 0" using eqc_65535 [of 1] by simp
  then have "eqc (int 65535) (int n)" by (rule eqc_trans) (rule eqc_sym, use r in simp)
  with r show "fold1c n = 65535" by (intro fold1c_unique [symmetric]) simp_all
next
  assume l: "fold1c n = 65535"
  then have "n \<noteq> 0" by (metis fold1c_eq_0 zero_neq_numeral)
  moreover have "eqc (int n) 0"
  proof (rule eqc_trans)
    show "eqc (int n) (int (fold1c n))" by (rule eqc_sym) (rule fold1c_eqc)
    show "eqc (int (fold1c n)) 0" unfolding l using eqc_65535 [of 1] by simp
  qed
  ultimately show "n \<noteq> 0 \<and> eqc (int n) 0" ..
qed

text \<open>One folding step of \<open>csum_fold\<close>, on naturals.\<close>

lemma unat_and_ffff: "unat (s AND 0xffff :: u32) = unat s mod 65536"
proof -
  have "s AND 0xffff = take_bit 16 s"
    by (simp only: take_bit_eq_mask) (simp add: mask_numeral)
  then show ?thesis
    by (simp only: unsigned_take_bit_eq) (simp add: take_bit_eq_mod)
qed

lemma unat_drop_16: "unat (drop_bit 16 s :: u32) = unat s div 65536"
  by (simp only: unsigned_drop_bit_eq) (simp add: drop_bit_eq_div take_bit_eq_mod unat_u32_less)

lemma fold_step:
  "unat ((s AND 0xffff) + drop_bit 16 s :: u32) = unat s mod 65536 + unat s div 65536"
proof -
  have "unat s div 65536 < 65536" using unat_u32_less [of s] by (simp add: less_mult_imp_div_less)
  moreover have "unat s mod 65536 < 65536" by simp
  ultimately have "unat s mod 65536 + unat s div 65536 < 4294967296" by linarith
  then show ?thesis by (simp add: unat_word_ariths unat_and_ffff unat_drop_16)
qed

lemma fold_step_eqc: "eqc (int (n mod 65536 + n div 65536)) (int n)"
proof -
  define q r where "q = n div 65536" and "r = n mod 65536"
  have "n = 65536 * q + r" by (simp add: q_def r_def)
  then have "int n - int (r + q) = 65535 * int q" by simp
  then have "eqc (int n) (int (r + q))" unfolding eqc_def by (simp only: dvd_triv_left)
  then show ?thesis unfolding q_def r_def by (rule eqc_sym)
qed

lemma unat_not_u32: "unat (NOT x :: u32) = 4294967295 - unat x"
proof -
  let ?n = "unat (NOT x) + unat x"
  have "NOT x + x = - 1" by (simp add: not_eq_complement)
  then have "unat (NOT x + x) = 4294967295" by (simp add: unsigned_minus_1_eq_mask mask_eq_exp_minus_1)
  then have m: "?n mod 4294967296 = 4294967295" by (simp add: unat_word_ariths)
  have "?n = 4294967296 * (?n div 4294967296) + ?n mod 4294967296" by simp
  with m have "?n = 4294967296 * (?n div 4294967296) + 4294967295" by linarith
  moreover have "?n < 4294967296 * 2 - 1" using unat_u32_less [of x] unat_u32_less [of "NOT x"] by linarith
  ultimately have "?n div 4294967296 = 0" by linarith
  with m have "?n = 4294967295" by (metis div_eq_0_iff mod_less zero_neq_numeral)
  then show ?thesis by linarith
qed

lemma fold_step_bound:
  fixes n :: nat
  assumes "n \<le> 131070"
  shows "n mod 65536 + n div 65536 \<le> 65535"
proof -
  define q r where "q = n div 65536" and "r = n mod 65536"
  have n: "n = 65536 * q + r" and r: "r < 65536" by (simp_all add: q_def r_def)
  then have "q = 0 \<or> q = 1" using assms by linarith
  then have "r + q \<le> 65535" using n r assms by auto
  then show ?thesis unfolding q_def r_def .
qed

lemma csum_fold_fold1c: "unat (csum_fold s) = 65535 - fold1c (unat s)"
proof -
  define s1 where "s1 = (s AND 0xffff) + drop_bit 16 s"
  define s2 where "s2 = (s1 AND 0xffff) + drop_bit 16 s1"
  have u1: "unat s1 = unat s mod 65536 + unat s div 65536"
    unfolding s1_def by (rule fold_step)
  have u2: "unat s2 = unat s1 mod 65536 + unat s1 div 65536"
    unfolding s2_def by (rule fold_step)
  have "unat s div 65536 < 65536" using unat_u32_less [of s] by (simp add: less_mult_imp_div_less)
  moreover have "unat s mod 65536 < 65536" by simp
  ultimately have "unat s1 \<le> 131070" unfolding u1 by linarith
  then have b2: "unat s2 \<le> 65535" unfolding u2 by (rule fold_step_bound)
  have "eqc (int (unat s2)) (int (unat s))"
    using eqc_trans [OF fold_step_eqc [of "unat s1"], of "int (unat s)"]
      fold_step_eqc [of "unat s"] by (simp only: u1 [symmetric] u2 [symmetric])
  moreover have "n mod 65536 + n div 65536 = 0 \<longleftrightarrow> n = 0" for n :: nat
    using mult_div_mod_eq [of 65536 n] by auto
  then have "unat s2 = 0 \<longleftrightarrow> unat s = 0" by (simp only: u1 u2)
  ultimately have f: "unat s2 = fold1c (unat s)" using b2 by (intro fold1c_unique)
  have "4294967295 - unat s2 = (65535 - unat s2) + 65535 * 65536" using b2 by linarith
  then have "(4294967295 - unat s2) mod 65536 = (65535 - unat s2) mod 65536"
    by (simp only: mod_mult_self1)
  then have "unat (ucast (NOT s2) :: u16) = 65535 - unat s2"
    by (simp add: unsigned_ucast_eq take_bit_eq_mod unat_not_u32)
  moreover have "csum_fold s = ucast (NOT s2)"
    by (simp only: csum_fold_def Let_def s1_def s2_def)
  ultimately show ?thesis by (simp add: f)
qed

lemma csum_fold_eqc: "eqc (uint (csum_fold s) + uint s) 0"
proof -
  have "uint (csum_fold s) = int (unat (csum_fold s))" by simp
  also have "\<dots> = 65535 - int (fold1c (unat s))"
    using csum_fold_fold1c [of s] fold1c_le [of "unat s"] by simp
  finally have f: "uint (csum_fold s) = 65535 - int (fold1c (unat s))" .
  have "eqc (int (fold1c (unat s))) (uint s)"
    using fold1c_eqc [of "unat s"] by simp
  then have "eqc (65535 - int (fold1c (unat s)) + uint s) (65535 - uint s + uint s)"
    by (intro eqc_add eqc_diff eqc_refl)
  then have "eqc (uint (csum_fold s) + uint s) 65535" by (simp add: f)
  moreover have "eqc 65535 0" using eqc_65535 [of 1] by simp
  ultimately show ?thesis by (rule eqc_trans)
qed

lemma csum_fold_zero_iff: "csum_fold s = 0 \<longleftrightarrow> s \<noteq> 0 \<and> eqc (uint s) 0"
proof -
  have "csum_fold s = 0 \<longleftrightarrow> fold1c (unat s) = 65535"
    using csum_fold_fold1c [of s] fold1c_le [of "unat s"]
    by (metis diff_is_0_eq diff_self_eq_0 le_antisym unat_eq_zero)
  then show ?thesis by (simp add: fold1c_all_ones unat_eq_zero)
qed

section \<open>Sums of byte strings\<close>

lemma nsum_append: "even (length xs) \<Longrightarrow> nsum e (xs @ ys) = nsum e xs + nsum e ys"
  by (induction e xs rule: nsum.induct) auto

lemma nsum_st16 [simp]: "nsum e (st16 e w) = unat w"
  by (cases e) (simp_all add: ld16.simps)

lemma nsum_st16_append [simp]: "nsum e (st16 e w @ xs) = unat w + nsum e xs"
  by (simp add: nsum_append)

lemma nsum_st32_eqc: "eqc (int (nsum e (st32 e w))) (uint w)"
proof -
  have n: "nsum e (st32 e w) = unat (hi16 w) + unat (lo16 w)"
    by (cases e) simp_all
  have "unat w = 65536 * unat (hi16 w) + unat (lo16 w)"
    using unat_join32 [of "hi16 w" "lo16 w"] by simp
  then have "int (unat w) - int (nsum e (st32 e w)) = 65535 * int (unat (hi16 w))"
    by (simp add: n)
  then have "eqc (int (unat w)) (int (nsum e (st32 e w)))"
    unfolding eqc_def by (simp only: dvd_triv_left)
  then have "eqc (int (nsum e (st32 e w))) (int (unat w))" by (rule eqc_sym)
  then show ?thesis by simp
qed

text \<open>Overwriting an even window changes the sum by the window's difference.\<close>

lemma nsum_overwrite:
  assumes "even off" and "even (length ys)" and "off + length ys \<le> length xs"
  shows "nsum e (overwrite off ys xs) + nsum e (window off (length ys) xs) = nsum e xs + nsum e ys"
proof -
  have "length (take off xs) = off" using assms(3) by simp
  with assms(1) have t: "even (length (take off xs))" by simp
  have s: "even (length (window off (length ys) xs))" using assms by simp
  have "nsum e xs = nsum e (take off xs) + (nsum e (window off (length ys) xs) + nsum e (drop (off + length ys) xs))"
    using split_window [of xs off "length ys"] nsum_append [OF t] nsum_append [OF s] by metis
  then show ?thesis
    by (simp add: overwrite_def nsum_append [OF t] nsum_append [OF assms(2)])
qed

text \<open>The byte orders differ by the unit \<open>256\<close>.\<close>

lemma nsum_swap: "eqc (int (nsum LITTLE_ENDIAN xs)) (256 * int (nsum BIG_ENDIAN xs))"
proof (induction xs rule: induct_list012)
  case (2 a)
  have "int (unat a) - 256 * (256 * int (unat a)) = 65535 * (- int (unat a))" by simp
  then have "eqc (int (unat a)) (256 * (256 * int (unat a)))"
    unfolding eqc_def by (simp only: dvd_triv_left)
  then show ?case by (simp add: unat_join16)
next
  case (3 a b xs)
  have "int (256 * unat b + unat a) - 256 * int (256 * unat a + unat b) = 65535 * (- int (unat a))"
    by simp
  then have "eqc (int (unat (join16 b a))) (256 * int (unat (join16 a b)))"
    unfolding eqc_def unat_join16 by (simp only: dvd_triv_left)
  from eqc_add [OF this 3(1)] show ?case by (simp add: algebra_simps)
qed simp

lemma nsum_eqc_zero_order: "eqc (int (nsum e xs)) 0 \<longleftrightarrow> eqc (int (nsum BIG_ENDIAN xs)) 0"
proof (cases e)
  case LITTLE_ENDIAN
  have "eqc (int (nsum LITTLE_ENDIAN xs)) 0 \<longleftrightarrow> eqc (256 * int (nsum BIG_ENDIAN xs)) 0"
    using nsum_swap [of xs] eqc_sym eqc_trans by blast
  then show ?thesis using LITTLE_ENDIAN by (simp add: eqc_swap_iff)
qed simp

lemma nsum_eq_0_order: "nsum e xs = 0 \<longleftrightarrow> nsum BIG_ENDIAN xs = 0"
  by (induction BIG_ENDIAN xs rule: nsum.induct; cases e) (auto simp: unat_join16)

section \<open>RFC 1071\<close>

lemma unat_ones_add:
  "unat (ones_add a b) =
     (if unat a + unat b < 65536 then unat a + unat b else unat a + unat b - 65535)"
proof (cases "unat a + unat b < 65536")
  case True
  then have "unat (a + b) = unat a + unat b" by (simp add: unat_word_ariths)
  with True show ?thesis by (simp add: ones_add_def Let_def word_less_nat_alt)
next
  case False
  then have s: "unat (a + b) = unat a + unat b - 65536"
    using unat_u16_less [of a] unat_u16_less [of b] by (simp add: unat_plus_if')
  then have "a + b < a" using False unat_u16_less [of b] by (simp add: word_less_nat_alt)
  moreover have "unat (a + b + 1) = unat a + unat b - 65535"
    using s False unat_u16_less [of a] unat_u16_less [of b] by (simp add: unat_word_ariths)
  ultimately show ?thesis using False by (simp add: ones_add_def Let_def)
qed

lemma inet_sum_fold1c: "unat (inet_sum xs) = fold1c (nsum BIG_ENDIAN xs)"
proof (induction xs rule: inet_sum.induct)
  case 1
  show ?case by (simp add: fold1c_def)
next
  case (2 a)
  show ?case using unat_u16_le [of "join16 a 0"] by (intro fold1c_unique) simp_all
next
  case (3 a b xs)
  let ?j = "unat (join16 a b)" and ?s = "unat (inet_sum xs)"
  have ad: "eqc (int (unat (ones_add (join16 a b) (inet_sum xs)))) (int (?j + ?s))"
    unfolding unat_ones_add using eqc_diff [OF eqc_refl eqc_65535 [of 1], of "int (?j + ?s)"]
    by (simp add: of_nat_diff)
  show ?case
  proof (rule fold1c_unique)
    have "eqc (int (?j + ?s)) (int (nsum BIG_ENDIAN (a # b # xs)))"
      using eqc_add [OF eqc_refl fold1c_eqc] 3 by simp
    with ad show "eqc (int (unat (inet_sum (a # b # xs)))) (int (nsum BIG_ENDIAN (a # b # xs)))"
      by (simp only: inet_sum.simps) (rule eqc_trans)
    have "?s = 0 \<longleftrightarrow> nsum BIG_ENDIAN xs = 0" by (simp add: 3)
    then show "unat (inet_sum (a # b # xs)) = 0 \<longleftrightarrow> nsum BIG_ENDIAN (a # b # xs) = 0"
      by (simp only: inet_sum.simps unat_ones_add nsum.simps ld16.simps) auto
  qed (rule unat_u16_le)
qed

lemma inet_ok_iff: "inet_ok xs \<longleftrightarrow> nsum e xs \<noteq> 0 \<and> eqc (int (nsum e xs)) 0"
proof -
  have "inet_ok xs \<longleftrightarrow> unat (inet_sum xs) = 65535"
    by (simp add: inet_ok_def word_unat_eq_iff)
  also have "\<dots> \<longleftrightarrow> nsum BIG_ENDIAN xs \<noteq> 0 \<and> eqc (int (nsum BIG_ENDIAN xs)) 0"
    by (simp add: inet_sum_fold1c fold1c_all_ones)
  finally show ?thesis
    by (simp only: nsum_eqc_zero_order [of e] nsum_eq_0_order [of e])
qed

section \<open>Packing a field\<close>

lemma st32_word16: "st32 e (word16 e v) = st16 e v @ [0, 0]"
  by (cases e) (simp_all add: word16_def overwrite_def numeral_eq_Suc)

lemma nsum_zero2 [simp]: "nsum e [0, 0] = 0"
  by (cases e) simp_all

lemma nsum_word16 [simp]: "nsum e (st32 e (word16 e v)) = unat v"
  by (simp add: st32_word16)

section \<open>Filling in and updating a checksum field\<close>

lemma nsum_ge_window:
  assumes "even off" and "even n" and "off + n \<le> length xs"
  shows "nsum e xs \<ge> nsum e (window off n xs)"
proof -
  have "even (length (take off xs))" and "even (length (window off n xs))" using assms by auto
  then have "nsum e xs = nsum e (take off xs) + (nsum e (window off n xs) + nsum e (drop (off + n) xs))"
    using split_window [of xs off n] nsum_append by metis
  then show ?thesis by simp
qed

text \<open>
  Storing the complement of a message's sum into its zeroed checksum field makes the
  message verify; \<open>c\<close> may be any representative, so the all-ones form does as well.
\<close>

lemma inet_ok_fill:
  assumes "even off" and "off + 2 \<le> length xs" and "window off 2 xs = [0, 0]"
    and "nsum e xs \<noteq> 0" and "eqc (uint c + int (nsum e xs)) 0"
  shows "inet_ok (overwrite off (st16 e c) xs)"
proof -
  have n: "nsum e (overwrite off (st16 e c) xs) = nsum e xs + unat c"
    using nsum_overwrite [of off "st16 e c" xs e] assms(1-3) by simp
  with assms(4,5) show ?thesis
    unfolding inet_ok_iff [of _ e] by (simp add: add.commute)
qed

text \<open>
  Replacing the words before a message (a pseudo-header) and its checksum field by the
  difference rule \<open>C' + diff = C\<close> keeps the message valid.
\<close>

lemma inet_ok_update:
  assumes ok: "inet_ok (p @ xs)" and p: "even (length p)" and q: "even (length q)"
    and off: "even off" "off + 2 \<le> length xs"
    and c: "window off 2 xs = st16 e c"
    and d: "eqc (uint c' + d) (uint c)" "eqc (d + int (nsum e p)) (int (nsum e q))"
    and nz: "nsum e q \<noteq> 0"
  shows "inet_ok (q @ overwrite off (st16 e c') xs)"
proof -
  have "nsum e (overwrite off (st16 e c') xs) + unat c = nsum e xs + unat c'"
    using nsum_overwrite [of off "st16 e c'" xs e] off c by simp
  then have s: "int (nsum e (overwrite off (st16 e c') xs)) = int (nsum e xs) + uint c' - uint c"
    by (metis add_diff_cancel_right' of_nat_add uint_nat)
  from ok have o: "eqc (int (nsum e p) + int (nsum e xs)) 0"
    using p by (simp add: inet_ok_iff [of _ e] nsum_append)
  have "eqc (d + int (nsum e p) + (int (nsum e xs) + uint c' - uint c))
            (int (nsum e q) + (int (nsum e xs) + uint c' - uint c))"
    by (intro eqc_add d(2) eqc_refl)
  moreover have "eqc (d + int (nsum e p) + (int (nsum e xs) + uint c' - uint c)) 0"
    using eqc_diff [OF eqc_add [OF o d(1)] eqc_refl [of "uint c"]] by (simp add: algebra_simps)
  ultimately have "eqc (int (nsum e q) + (int (nsum e xs) + uint c' - uint c)) 0"
    using eqc_sym eqc_trans by blast
  then show ?thesis
    using q nz by (simp add: inet_ok_iff [of _ e] nsum_append s)
qed

section \<open>Properties\<close>

text \<open>
  (C31) The complement of the folded 32-bit sum of a byte string, appended to
  the string the way the CPU stores it, makes the string verify under RFC 1071, whatever the
  byte order of the CPU that summed it.
\<close>

theorem csum_fold_closes:
  assumes "even (length bs)" and "nsum e bs < 2 ^ 32"
  shows "inet_ok (bs @ st16 e (csum_fold (word_of_nat (nsum e bs))))"
proof -
  let ?s = "word_of_nat (nsum e bs) :: u32"
  have s: "unat ?s = nsum e bs" using assms(2) by (simp add: unsigned_of_nat take_bit_eq_mod)
  then have "uint ?s = int (nsum e bs)" by (simp only: uint_nat)
  with csum_fold_eqc [of ?s]
  have "eqc (uint (csum_fold ?s) + int (nsum e bs)) 0" by (simp only:)
  moreover have "nsum e bs = 0 \<Longrightarrow> unat (csum_fold ?s) \<noteq> 0"
    unfolding csum_fold_fold1c [of ?s] s by (simp add: fold1c_def)
  ultimately show ?thesis
    using assms(1) by (cases "nsum e bs = 0") (auto simp: inet_ok_iff [of _ e] nsum_append add.commute)
qed

theorem csum_fold_closes_witness:
  "inet_ok ([0x45, 0, 0xff, 0xfe] @ st16 LITTLE_ENDIAN (csum_fold (word_of_nat (nsum LITTLE_ENDIAN [0x45, 0, 0xff, 0xfe]))))"
  by (rule csum_fold_closes) (simp_all add: join16_def)

end
