(* ===== verification/Kernel.thy ===== *)
theory Kernel
  imports Checksum
begin

text \<open>
  The program's interface to the kernel: the socket buffer it is handed and the helpers it
  calls. The kernel is not part of the repository, so the helpers are a parameter of the
  model: a record \<open>kernel\<close> with one function per helper that \<open>bpf/clat.c\<close> calls. The
  locale \<open>bpf_kernel\<close> states what the helpers' documentation in
  \<open>bpf/include/bpf_helper_defs.h\<close> promises when a call succeeds; any call may fail. The
  locale \<open>bpf_kernel_live\<close> adds that calls with valid arguments do not fail, for the
  theorems that say a packet is translated. \<open>ref_kernel\<close> is an executable kernel that
  keeps both contracts; it instantiates the parameter in examples.

  Helper results are the C return codes (negative on failure) beside the new buffer. Buffer
  offsets and lengths are naturals: the program's are far below $2^{32}$.
\<close>

section \<open>The socket buffer\<close>

text \<open>
  \<open>pkt\<close> is the frame from the Ethernet header on, \<open>linear\<close> the length of its directly
  addressable prefix (\<open>skb->data_end - skb->data\<close>), \<open>protocol\<close> the Ethernet type the
  kernel has on record (host order) and \<open>ip_summed\<close> its checksum state.
\<close>

datatype csum_state =
  CHECKSUM_NONE | CHECKSUM_UNNECESSARY | CHECKSUM_COMPLETE u32 | CHECKSUM_PARTIAL

record skb =
  pkt :: bytes
  linear :: nat
  protocol :: u16
  ip_summed :: csum_state

definition ETH_P_IP :: u16 where
  "ETH_P_IP = 0x0800"

definition ETH_P_IPV6 :: u16 where
  "ETH_P_IPV6 = 0x86DD"

definition is_partial :: "skb \<Rightarrow> bool" where
  "is_partial s \<longleftrightarrow> ip_summed s = CHECKSUM_PARTIAL"

definition skb_wf :: "skb \<Rightarrow> bool" where
  "skb_wf s \<longleftrightarrow> linear s \<le> length (pkt s)"

text \<open>Direct packet access: \<open>None\<close> is an access outside \<open>data .. data_end\<close>.\<close>

definition lin_read :: "skb \<Rightarrow> nat \<Rightarrow> nat \<Rightarrow> bytes option" where
  "lin_read s off n = (if off + n \<le> linear s then Some (window off n (pkt s)) else None)"

section \<open>Helper flags (\<open>linux/bpf.h\<close>)\<close>

definition BPF_F_RECOMPUTE_CSUM :: u64 where
  "BPF_F_RECOMPUTE_CSUM = 1"

definition BPF_F_PSEUDO_HDR :: u64 where
  "BPF_F_PSEUDO_HDR = 0x10"

definition BPF_F_MARK_MANGLED_0 :: u64 where
  "BPF_F_MARK_MANGLED_0 = 0x20"

definition BPF_F_MARK_ENFORCE :: u64 where
  "BPF_F_MARK_ENFORCE = 0x40"

definition BPF_F_ADJ_ROOM_FIXED_GSO :: u64 where
  "BPF_F_ADJ_ROOM_FIXED_GSO = 1"

definition BPF_F_ADJ_ROOM_NO_CSUM_RESET :: u64 where
  "BPF_F_ADJ_ROOM_NO_CSUM_RESET = 0x20"

definition BPF_ADJ_ROOM_NET :: u32 where
  "BPF_ADJ_ROOM_NET = 0"

definition has_flag :: "u64 \<Rightarrow> u64 \<Rightarrow> bool" where
  "has_flag flags f \<longleftrightarrow> flags AND f \<noteq> 0"

lemmas flag_defs =
  BPF_F_RECOMPUTE_CSUM_def BPF_F_PSEUDO_HDR_def BPF_F_MARK_MANGLED_0_def
  BPF_F_MARK_ENFORCE_def BPF_F_ADJ_ROOM_FIXED_GSO_def BPF_F_ADJ_ROOM_NO_CSUM_RESET_def
  BPF_ADJ_ROOM_NET_def has_flag_def

section \<open>The helpers\<close>

record kernel =
  bpf_map_lookup_elem :: "u64 list \<Rightarrow> u32 \<Rightarrow> nat option"
  bpf_skb_store_bytes :: "skb \<Rightarrow> nat \<Rightarrow> bytes \<Rightarrow> u64 \<Rightarrow> int \<times> skb"
  bpf_l4_csum_replace :: "skb \<Rightarrow> nat \<Rightarrow> u64 \<Rightarrow> u64 \<Rightarrow> u64 \<Rightarrow> int \<times> skb"
  bpf_skb_load_bytes :: "skb \<Rightarrow> nat \<Rightarrow> nat \<Rightarrow> int \<times> bytes"
  bpf_csum_diff :: "bytes \<Rightarrow> bytes \<Rightarrow> u32 \<Rightarrow> int"
  bpf_skb_change_proto :: "skb \<Rightarrow> u16 \<Rightarrow> u64 \<Rightarrow> int \<times> skb"
  bpf_skb_pull_data :: "skb \<Rightarrow> nat \<Rightarrow> int \<times> skb"
  bpf_skb_adjust_room :: "skb \<Rightarrow> int \<Rightarrow> u32 \<Rightarrow> u64 \<Rightarrow> int \<times> skb"

text \<open>Where \<open>BPF_ADJ_ROOM_NET\<close> adds and removes room: behind the fixed layer 3 header.\<close>

definition net_base :: "skb \<Rightarrow> nat" where
  "net_base s = (if protocol s = ETH_P_IP then 34 else 54)"

text \<open>
  How \<open>bpf_l4_csum_replace\<close> may turn the field \<open>c\<close> into \<open>c'\<close> for the difference
  \<open>d\<close>: the complemented checksum follows the data (a partial checksum is not complemented),
  and \<open>BPF_F_MARK_MANGLED_0\<close> keeps the special meaning of a zero field.
\<close>

definition l4_update :: "bool \<Rightarrow> u64 \<Rightarrow> u16 \<Rightarrow> u64 \<Rightarrow> u16 \<Rightarrow> bool" where
  "l4_update partial flags c d c' \<longleftrightarrow>
     (if has_flag flags BPF_F_MARK_MANGLED_0 \<and> c = 0 \<and> \<not> has_flag flags BPF_F_MARK_ENFORCE
      then c' = c
      else (if partial then eqc (uint c') (uint c + uint d) else eqc (uint c' + uint d) (uint c)) \<and>
           (has_flag flags BPF_F_MARK_MANGLED_0 \<longrightarrow> c' \<noteq> 0))"

locale bpf_kernel =
  fixes e :: byte_order and K :: kernel
  assumes map_lookup:
      "bpf_map_lookup_elem K m k = (if unat k < length m then Some (unat k) else None)"
    and pull_frame:
      "pkt (snd (bpf_skb_pull_data K s n)) = pkt s"
      "protocol (snd (bpf_skb_pull_data K s n)) = protocol s"
      "ip_summed (snd (bpf_skb_pull_data K s n)) = ip_summed s"
    and pull_wf: "skb_wf s \<Longrightarrow> skb_wf (snd (bpf_skb_pull_data K s n))"
    and load_code: "fst (bpf_skb_load_bytes K s off n) \<le> 0"
    and load_bytes:
      "0 \<le> fst (bpf_skb_load_bytes K s off n) \<Longrightarrow>
         off + n \<le> length (pkt s) \<and> snd (bpf_skb_load_bytes K s off n) = window off n (pkt s)"
    and store_bytes:
      "0 \<le> fst (bpf_skb_store_bytes K s off bs flags) \<Longrightarrow>
         off + length bs \<le> length (pkt s) \<and>
         pkt (snd (bpf_skb_store_bytes K s off bs flags)) = overwrite off bs (pkt s) \<and>
         protocol (snd (bpf_skb_store_bytes K s off bs flags)) = protocol s \<and>
         is_partial (snd (bpf_skb_store_bytes K s off bs flags)) = is_partial s"
    and change_proto_46:
      "0 \<le> fst (bpf_skb_change_proto K s (bpf_htons e ETH_P_IPV6) 0) \<Longrightarrow>
       protocol s = ETH_P_IP \<Longrightarrow> 34 \<le> length (pkt s) \<Longrightarrow>
       s' = snd (bpf_skb_change_proto K s (bpf_htons e ETH_P_IPV6) 0) \<Longrightarrow>
         length (pkt s') = length (pkt s) + 20 \<and> take 14 (pkt s') = take 14 (pkt s) \<and>
         drop 54 (pkt s') = drop 34 (pkt s) \<and> protocol s' = ETH_P_IPV6 \<and>
         is_partial s' = is_partial s"
    and change_proto_64:
      "0 \<le> fst (bpf_skb_change_proto K s (bpf_htons e ETH_P_IP) 0) \<Longrightarrow>
       protocol s = ETH_P_IPV6 \<Longrightarrow> 54 \<le> length (pkt s) \<Longrightarrow>
       s' = snd (bpf_skb_change_proto K s (bpf_htons e ETH_P_IP) 0) \<Longrightarrow>
         length (pkt s') + 20 = length (pkt s) \<and> take 14 (pkt s') = take 14 (pkt s) \<and>
         drop 34 (pkt s') = drop 54 (pkt s) \<and> protocol s' = ETH_P_IP \<and>
         is_partial s' = is_partial s"
    and adjust_shrink:
      "0 \<le> fst (bpf_skb_adjust_room K s (- int n) BPF_ADJ_ROOM_NET flags) \<Longrightarrow>
       protocol s = ETH_P_IP \<or> protocol s = ETH_P_IPV6 \<Longrightarrow> 0 < n \<Longrightarrow>
       has_flag flags BPF_F_ADJ_ROOM_NO_CSUM_RESET \<Longrightarrow>
       s' = snd (bpf_skb_adjust_room K s (- int n) BPF_ADJ_ROOM_NET flags) \<Longrightarrow>
         net_base s + n \<le> length (pkt s) \<and>
         pkt s' = take (net_base s) (pkt s) @ drop (net_base s + n) (pkt s) \<and>
         protocol s' = protocol s \<and> is_partial s' = is_partial s"
    and adjust_grow:
      "0 \<le> fst (bpf_skb_adjust_room K s (int n) BPF_ADJ_ROOM_NET flags) \<Longrightarrow>
       protocol s = ETH_P_IP \<or> protocol s = ETH_P_IPV6 \<Longrightarrow> 0 < n \<Longrightarrow>
       has_flag flags BPF_F_ADJ_ROOM_NO_CSUM_RESET \<Longrightarrow>
       s' = snd (bpf_skb_adjust_room K s (int n) BPF_ADJ_ROOM_NET flags) \<Longrightarrow>
         net_base s \<le> length (pkt s) \<and> length (pkt s') = length (pkt s) + n \<and>
         take (net_base s) (pkt s') = take (net_base s) (pkt s) \<and>
         drop (net_base s + n) (pkt s') = drop (net_base s) (pkt s) \<and>
         protocol s' = protocol s \<and> is_partial s' = is_partial s"
    and csum_diff:
      "4 dvd length from \<Longrightarrow> 4 dvd length to \<Longrightarrow> length from + length to \<le> 512 \<Longrightarrow>
         0 \<le> bpf_csum_diff K from to seed \<and> bpf_csum_diff K from to seed < 2 ^ 32 \<and>
         eqc (bpf_csum_diff K from to seed + int (nsum e from)) (uint seed + int (nsum e to)) \<and>
         (from = [] \<and> bpf_csum_diff K from to seed = 0 \<longrightarrow> seed = 0 \<and> nsum e to = 0)"
    and l4_csum:
      "0 \<le> fst (bpf_l4_csum_replace K s off 0 d flags) \<Longrightarrow>
       flags AND 0xf = 0 \<Longrightarrow> has_flag flags BPF_F_PSEUDO_HDR \<Longrightarrow>
       s' = snd (bpf_l4_csum_replace K s off 0 d flags) \<Longrightarrow>
         off + 2 \<le> length (pkt s) \<and> protocol s' = protocol s \<and> is_partial s' = is_partial s \<and>
         (\<exists>c'. pkt s' = overwrite off (st16 e c') (pkt s) \<and>
               l4_update (is_partial s) flags (ld16 e (pkt s ! off) (pkt s ! Suc off)) d c')"
begin

text \<open>The result of \<open>bpf_csum_diff\<close> assigned to a \<open>__wsum\<close> keeps its value.\<close>

lemma csum_diff_wsum:
  assumes "4 dvd length from" and "4 dvd length to" and "length from + length to \<le> 512"
  shows "eqc (uint (word_of_int (bpf_csum_diff K from to seed) :: u32) + int (nsum e from))
             (uint seed + int (nsum e to))"
proof -
  have "uint (word_of_int (bpf_csum_diff K from to seed) :: u32) = bpf_csum_diff K from to seed"
    using csum_diff [OF assms, of seed] by (simp add: uint_word_of_int_eq take_bit_int_eq_self)
  then show ?thesis using csum_diff [OF assms] by simp
qed

lemma csum_diff_zero:
  assumes "4 dvd length to" and "length to \<le> 512" and "(word_of_int (bpf_csum_diff K [] to seed) :: u32) = 0"
  shows "seed = 0 \<and> nsum e to = 0"
proof -
  have d: "0 \<le> bpf_csum_diff K [] to seed" "bpf_csum_diff K [] to seed < 2 ^ 32"
    using csum_diff [of "[]" to seed] assms(1,2) by simp_all
  then have "uint (word_of_int (bpf_csum_diff K [] to seed) :: u32) = bpf_csum_diff K [] to seed"
    by (simp add: uint_word_of_int_eq take_bit_int_eq_self)
  with assms(3) have "bpf_csum_diff K [] to seed = 0" by simp
  with csum_diff [of "[]" to seed] assms(1,2) show ?thesis by simp
qed

lemma load_ok:
  "bpf_skb_load_bytes K s off n = (rc, bs) \<Longrightarrow> \<not> rc < 0 \<Longrightarrow>
     rc = 0 \<and> off + n \<le> length (pkt s) \<and> bs = window off n (pkt s)"
  using load_code [of s off n] load_bytes [of s off n] by auto

end

locale bpf_kernel_live = bpf_kernel +
  assumes pull_live: "0 < n \<Longrightarrow> n \<le> length (pkt s) \<Longrightarrow> skb_wf s \<Longrightarrow>
      0 \<le> fst (bpf_skb_pull_data K s n) \<and> n \<le> linear (snd (bpf_skb_pull_data K s n))"
    and load_live: "0 < n \<Longrightarrow> off + n \<le> length (pkt s) \<Longrightarrow> 0 \<le> fst (bpf_skb_load_bytes K s off n)"
    and store_live: "off + length bs \<le> length (pkt s) \<Longrightarrow> 0 \<le> fst (bpf_skb_store_bytes K s off bs flags)"
    and change_proto_46_live: "protocol s = ETH_P_IP \<Longrightarrow> 34 \<le> length (pkt s) \<Longrightarrow>
      0 \<le> fst (bpf_skb_change_proto K s (bpf_htons e ETH_P_IPV6) 0)"
    and change_proto_64_live: "protocol s = ETH_P_IPV6 \<Longrightarrow> 54 \<le> length (pkt s) \<Longrightarrow>
      0 \<le> fst (bpf_skb_change_proto K s (bpf_htons e ETH_P_IP) 0)"
    and adjust_shrink_live: "protocol s = ETH_P_IP \<or> protocol s = ETH_P_IPV6 \<Longrightarrow>
      net_base s + n \<le> length (pkt s) \<Longrightarrow> 0 < n \<Longrightarrow> n < 4096 \<Longrightarrow>
      0 \<le> fst (bpf_skb_adjust_room K s (- int n) BPF_ADJ_ROOM_NET flags)"
    and adjust_grow_live: "protocol s = ETH_P_IP \<or> protocol s = ETH_P_IPV6 \<Longrightarrow>
      net_base s \<le> length (pkt s) \<Longrightarrow> 0 < n \<Longrightarrow> n < 4096 \<Longrightarrow>
      0 \<le> fst (bpf_skb_adjust_room K s (int n) BPF_ADJ_ROOM_NET flags)"
    and l4_live: "even off \<Longrightarrow> off + 2 \<le> length (pkt s) \<Longrightarrow> flags AND 0xf = 0 \<Longrightarrow>
      0 \<le> fst (bpf_l4_csum_replace K s off 0 d flags)"

section \<open>A reference kernel\<close>

text \<open>The non-negative residue of a difference of sums, never \<open>0\<close> for a non-zero sum.\<close>

definition ref_csum_diff :: "byte_order \<Rightarrow> bytes \<Rightarrow> bytes \<Rightarrow> u32 \<Rightarrow> int" where
  "ref_csum_diff e from to seed =
     int (fold1c (unat seed + nsum e to + (65534 * nsum e from)))"

definition ref_l4_value :: "bool \<Rightarrow> u64 \<Rightarrow> u16 \<Rightarrow> u64 \<Rightarrow> u16" where
  "ref_l4_value partial flags c d =
     (if has_flag flags BPF_F_MARK_MANGLED_0 \<and> c = 0 \<and> \<not> has_flag flags BPF_F_MARK_ENFORCE then c
      else (let v = (if partial then fold1c (unat c + unat d)
                     else 65535 - fold1c ((65535 - unat c) + unat d))
            in if has_flag flags BPF_F_MARK_MANGLED_0 \<and> v = 0 then 0xffff else word_of_nat v))"

definition ref_kernel :: "byte_order \<Rightarrow> kernel" where
  "ref_kernel e =
     \<lparr>bpf_map_lookup_elem = (\<lambda>m k. if unat k < length m then Some (unat k) else None),
      bpf_skb_store_bytes = (\<lambda>s off bs flags.
        if off + length bs \<le> length (pkt s) then (0, s\<lparr>pkt := overwrite off bs (pkt s)\<rparr>)
        else (-14, s)),
      bpf_l4_csum_replace = (\<lambda>s off from d flags.
        if odd off \<or> length (pkt s) < off + 2 then (-14, s)
        else (0, s\<lparr>pkt := overwrite off
                    (st16 e (ref_l4_value (is_partial s) flags
                       (ld16 e (pkt s ! off) (pkt s ! Suc off)) d)) (pkt s)\<rparr>)),
      bpf_skb_load_bytes = (\<lambda>s off n.
        if off + n \<le> length (pkt s) then (0, window off n (pkt s)) else (-14, [])),
      bpf_csum_diff = ref_csum_diff e,
      bpf_skb_change_proto = (\<lambda>s proto flags.
        if protocol s = ETH_P_IP \<and> proto = bpf_htons e ETH_P_IPV6 \<and> 34 \<le> length (pkt s)
        then (0, s\<lparr>pkt := take 14 (pkt s) @ replicate 20 0 @ drop 14 (pkt s),
                   protocol := ETH_P_IPV6\<rparr>)
        else if protocol s = ETH_P_IPV6 \<and> proto = bpf_htons e ETH_P_IP \<and> 54 \<le> length (pkt s)
        then (0, s\<lparr>pkt := take 14 (pkt s) @ drop 34 (pkt s), protocol := ETH_P_IP\<rparr>)
        else (-524, s)),
      bpf_skb_pull_data = (\<lambda>s n.
        let n = (if n = 0 then length (pkt s) else n)
        in if n \<le> length (pkt s) then (0, s\<lparr>linear := max (linear s) n\<rparr>) else (-12, s)),
      bpf_skb_adjust_room = (\<lambda>s d mode flags.
        let n = nat \<bar>d\<bar>; b = net_base s
        in if protocol s \<noteq> ETH_P_IP \<and> protocol s \<noteq> ETH_P_IPV6 \<or> n > 4095 \<or> length (pkt s) < b then (-524, s)
           else if d < 0 then
             if b + n \<le> length (pkt s)
             then (0, s\<lparr>pkt := take b (pkt s) @ drop (b + n) (pkt s)\<rparr>) else (-524, s)
           else (0, s\<lparr>pkt := take b (pkt s) @ replicate n 0 @ drop b (pkt s)\<rparr>))\<rparr>"

lemma ref_csum_diff_ok:
  "0 \<le> ref_csum_diff e from to seed \<and> ref_csum_diff e from to seed < 2 ^ 32 \<and>
   eqc (ref_csum_diff e from to seed + int (nsum e from)) (uint seed + int (nsum e to)) \<and>
   (from = [] \<and> ref_csum_diff e from to seed = 0 \<longrightarrow> seed = 0 \<and> nsum e to = 0)"
proof -
  let ?n = "unat seed + nsum e to + 65534 * nsum e from"
  have "eqc (int (fold1c ?n) + int (nsum e from)) (int ?n + int (nsum e from))"
    by (intro eqc_add fold1c_eqc eqc_refl)
  moreover have "eqc (int ?n + int (nsum e from)) (uint seed + int (nsum e to))"
    using eqc_add [OF eqc_refl eqc_65535, of "uint seed + int (nsum e to)" "int (nsum e from)"]
    by (simp add: algebra_simps)
  ultimately have "eqc (int (fold1c ?n) + int (nsum e from)) (uint seed + int (nsum e to))"
    by (rule eqc_trans)
  moreover have "int (fold1c ?n) < 2 ^ 32" using fold1c_le [of ?n] by simp
  ultimately show ?thesis by (auto simp: ref_csum_diff_def unsigned_eq_0_iff)
qed

lemma ref_l4_value_ok: "l4_update partial flags c d (ref_l4_value partial flags c d)"
proof (cases "has_flag flags BPF_F_MARK_MANGLED_0 \<and> c = 0 \<and> \<not> has_flag flags BPF_F_MARK_ENFORCE")
  case True
  then show ?thesis by (simp add: l4_update_def ref_l4_value_def)
next
  case False
  define v where "v = (if partial then fold1c (unat c + unat d)
                       else 65535 - fold1c ((65535 - unat c) + unat d))"
  define c' :: u16 where "c' = (if has_flag flags BPF_F_MARK_MANGLED_0 \<and> v = 0 then 0xffff else word_of_nat v)"
  have v: "v \<le> 65535" using fold1c_le by (simp add: v_def)
  then have "unat (word_of_nat v :: u16) = v"
    by (simp add: unsigned_of_nat take_bit_eq_mod)
  then have "uint (word_of_nat v :: u16) = int v"
    by (simp only: uint_nat)
  then have c': "eqc (uint c') (int v)"
    using eqc_65535 [of 1] by (simp add: c'_def)
  have m: "has_flag flags BPF_F_MARK_MANGLED_0 \<longrightarrow> c' \<noteq> 0"
    using \<open>unat (word_of_nat v :: u16) = v\<close> by (auto simp: c'_def)
  have r: "ref_l4_value partial flags c d = c'"
    using False by (simp only: ref_l4_value_def c'_def v_def if_False Let_def)
  show ?thesis
  proof (cases partial)
    case True
    have "eqc (uint c') (int (unat c + unat d))"
      using eqc_trans [OF c', of "int (unat c + unat d)"] fold1c_eqc [of "unat c + unat d"] True
      by (simp add: v_def)
    with True False m r show ?thesis by (simp add: l4_update_def)
  next
    case np: False
    let ?n = "(65535 - unat c) + unat d"
    have "int v = 65535 - int (fold1c ?n)" using fold1c_le [of ?n] np by (simp add: v_def)
    then have "eqc (uint c' + uint d) (65535 - int (fold1c ?n) + uint d)"
      using eqc_add [OF c' eqc_refl] by simp
    moreover have "eqc (65535 - int (fold1c ?n) + uint d) (65535 - int ?n + uint d)"
      by (intro eqc_add eqc_diff fold1c_eqc eqc_refl)
    ultimately have "eqc (uint c' + uint d) (65535 - int ?n + uint d)" by (rule eqc_trans)
    moreover have "65535 - int ?n + uint d = uint c" using unat_u16_le [of c] by simp
    ultimately have "eqc (uint c' + uint d) (uint c)" by simp
    with np False m r show ?thesis by (simp add: l4_update_def)
  qed
qed

lemmas eth_p_defs = ETH_P_IP_def ETH_P_IPV6_def

interpretation ref: bpf_kernel_live e "ref_kernel e" for e
proof (unfold_locales, goal_cases)
  case (1 m k)
  show ?case by (simp add: ref_kernel_def)
next
  case (2 s n)
  show ?case by (simp add: ref_kernel_def Let_def)
next
  case (3 s n)
  show ?case by (simp add: ref_kernel_def Let_def)
next
  case (4 s n)
  show ?case by (simp add: ref_kernel_def Let_def)
next
  case (5 s n)
  then show ?case by (simp add: ref_kernel_def Let_def skb_wf_def)
next
  case (6 s off n)
  show ?case by (simp add: ref_kernel_def)
next
  case (7 s off n)
  then show ?case by (simp add: ref_kernel_def split: if_splits)
next
  case (8 s off bs flags)
  then show ?case by (simp add: ref_kernel_def is_partial_def split: if_splits)
next
  case (9 s s')
  then show ?case by (auto simp: ref_kernel_def is_partial_def)
next
  case (10 s s')
  then show ?case by (auto simp: ref_kernel_def is_partial_def eth_p_defs)
next
  case (11 s n flags s')
  then show ?case by (auto simp: ref_kernel_def is_partial_def Let_def net_base_def split: if_splits)
next
  case (12 s n flags s')
  then show ?case by (auto simp: ref_kernel_def is_partial_def Let_def net_base_def split: if_splits)
next
  case (13 xs ys seed)
  show ?case using ref_csum_diff_ok [of e xs ys seed] by (auto simp: ref_kernel_def)
next
  case (14 s off d flags s')
  then show ?case
    by (auto simp: ref_kernel_def is_partial_def ref_l4_value_ok split: if_splits)
next
  case (15 n s)
  then show ?case by (simp add: ref_kernel_def Let_def)
next
  case (16 n off s)
  then show ?case by (simp add: ref_kernel_def)
next
  case (17 off bs s flags)
  then show ?case by (simp add: ref_kernel_def)
next
  case (18 s)
  then show ?case by (simp add: ref_kernel_def)
next
  case (19 s)
  then show ?case by (simp add: ref_kernel_def eth_p_defs)
next
  case (20 s n flags)
  then show ?case by (auto simp: ref_kernel_def Let_def)
next
  case (21 s n flags)
  then show ?case by (auto simp: ref_kernel_def Let_def)
next
  case (22 off s flags d)
  then show ?case by (simp add: ref_kernel_def)
qed

end
