(* ===== verification/Clat_Base.thy ===== *)
theory Clat_Base
  imports Kernel
begin

text \<open>
  The common part of \<open>bpf/clat.c\<close>: the protocol headers the program reads and writes, its
  per-pod constants, the drop and translation counters, and the small inline functions
  both programs share. A C struct is a record whose multi-byte fields hold the value the
  CPU loads; its byte image is the encoder of the struct, and the locale \<open>wire_struct\<close>
  collects what encoders and decoders promise each other.

  A program run is explicit: \<open>world\<close> is the buffer and the counter array, and every stage
  returns \<open>Next\<close> with its results, \<open>Return\<close> with the verdict of an early return, or
  \<open>Fault\<close> for a direct packet access outside \<open>data .. data_end\<close>.
\<close>

named_theorems const_defs \<open>numeric constants of the program\<close>

section \<open>Structs and their byte images\<close>

locale wire_struct =
  fixes size :: nat and enc :: "'a \<Rightarrow> bytes" and dec :: "bytes \<Rightarrow> 'a" and ok :: "'a \<Rightarrow> bool"
  assumes length_enc: "length (enc x) = size"
    and dec_enc: "ok x \<Longrightarrow> dec (enc x) = x"
    and enc_dec: "length bs = size \<Longrightarrow> enc (dec bs) = bs"
    and ok_dec: "length bs = size \<Longrightarrow> ok (dec bs)"
begin

lemma enc_inject: "ok x \<Longrightarrow> ok y \<Longrightarrow> enc x = enc y \<longleftrightarrow> x = y"
  by (metis dec_enc)

lemma dec_inject: "length xs = size \<Longrightarrow> length ys = size \<Longrightarrow> dec xs = dec ys \<longleftrightarrow> xs = ys"
  by (metis enc_dec)

text \<open>A struct stored in a buffer is read back.\<close>

lemma read_back:
  "ok x \<Longrightarrow> off + size \<le> length xs \<Longrightarrow> dec (window off size (overwrite off (enc x) xs)) = x"
  using window_overwrite_same [of off "enc x" xs] by (simp add: length_enc dec_enc)

text \<open>Storing a struct that was read changes nothing.\<close>

lemma write_back:
  "off + size \<le> length xs \<Longrightarrow> overwrite off (enc (dec (window off size xs))) xs = xs"
  by (simp add: enc_dec overwrite_window)

end

record in6_addr =
  u6_addr32_0 :: u32
  u6_addr32_1 :: u32
  u6_addr32_2 :: u32
  u6_addr32_3 :: u32

definition in6_bytes :: "byte_order \<Rightarrow> in6_addr \<Rightarrow> bytes" where
  "in6_bytes e a =
     st32 e (u6_addr32_0 a) @ st32 e (u6_addr32_1 a) @ st32 e (u6_addr32_2 a) @ st32 e (u6_addr32_3 a)"

definition in6_of :: "byte_order \<Rightarrow> bytes \<Rightarrow> in6_addr" where
  "in6_of e b =
     \<lparr>u6_addr32_0 = ld32 e (b ! 0) (b ! 1) (b ! 2) (b ! 3),
      u6_addr32_1 = ld32 e (b ! 4) (b ! 5) (b ! 6) (b ! 7),
      u6_addr32_2 = ld32 e (b ! 8) (b ! 9) (b ! 10) (b ! 11),
      u6_addr32_3 = ld32 e (b ! 12) (b ! 13) (b ! 14) (b ! 15)\<rparr>"

text \<open>\<open>struct iphdr\<close>; \<open>version\<close> and \<open>ihl\<close> are the two nibbles of the first byte.\<close>

record iphdr =
  ip_version :: u8
  ip_ihl :: u8
  ip_tos :: u8
  ip_tot_len :: u16
  ip_id :: u16
  ip_frag_off :: u16
  ip_ttl :: u8
  ip_protocol :: u8
  ip_check :: u16
  ip_saddr :: u32
  ip_daddr :: u32

definition iphdr_bytes :: "byte_order \<Rightarrow> iphdr \<Rightarrow> bytes" where
  "iphdr_bytes e h =
     [push_bit 4 (ip_version h) OR ip_ihl h, ip_tos h] @ st16 e (ip_tot_len h) @
     st16 e (ip_id h) @ st16 e (ip_frag_off h) @ [ip_ttl h, ip_protocol h] @
     st16 e (ip_check h) @ st32 e (ip_saddr h) @ st32 e (ip_daddr h)"

definition iphdr_of :: "byte_order \<Rightarrow> bytes \<Rightarrow> iphdr" where
  "iphdr_of e b =
     \<lparr>ip_version = drop_bit 4 (b ! 0), ip_ihl = b ! 0 AND 0xf, ip_tos = b ! 1,
      ip_tot_len = ld16 e (b ! 2) (b ! 3), ip_id = ld16 e (b ! 4) (b ! 5),
      ip_frag_off = ld16 e (b ! 6) (b ! 7), ip_ttl = b ! 8, ip_protocol = b ! 9,
      ip_check = ld16 e (b ! 10) (b ! 11),
      ip_saddr = ld32 e (b ! 12) (b ! 13) (b ! 14) (b ! 15),
      ip_daddr = ld32 e (b ! 16) (b ! 17) (b ! 18) (b ! 19)\<rparr>"

definition iphdr_ok :: "iphdr \<Rightarrow> bool" where
  "iphdr_ok h \<longleftrightarrow> unat (ip_version h) < 16 \<and> unat (ip_ihl h) < 16"

text \<open>
  \<open>struct ipv6hdr\<close>. The program writes version, traffic class and flow label as one
  32-bit word and reads the traffic class from it, so the word is the field.
\<close>

record ipv6hdr =
  ip6_word0 :: u32
  ip6_payload_len :: u16
  ip6_nexthdr :: u8
  ip6_hop_limit :: u8
  ip6_saddr :: in6_addr
  ip6_daddr :: in6_addr

definition ipv6hdr_bytes :: "byte_order \<Rightarrow> ipv6hdr \<Rightarrow> bytes" where
  "ipv6hdr_bytes e h =
     st32 e (ip6_word0 h) @ st16 e (ip6_payload_len h) @ [ip6_nexthdr h, ip6_hop_limit h] @
     in6_bytes e (ip6_saddr h) @ in6_bytes e (ip6_daddr h)"

definition ipv6hdr_of :: "byte_order \<Rightarrow> bytes \<Rightarrow> ipv6hdr" where
  "ipv6hdr_of e b =
     \<lparr>ip6_word0 = ld32 e (b ! 0) (b ! 1) (b ! 2) (b ! 3),
      ip6_payload_len = ld16 e (b ! 4) (b ! 5), ip6_nexthdr = b ! 6, ip6_hop_limit = b ! 7,
      ip6_saddr = in6_of e (window 8 16 b), ip6_daddr = in6_of e (window 24 16 b)\<rparr>"

definition ip6_version :: "byte_order \<Rightarrow> ipv6hdr \<Rightarrow> u8" where
  "ip6_version e h = drop_bit 4 (st32 e (ip6_word0 h) ! 0)"

record frag_hdr =
  fh_nexthdr :: u8
  fh_reserved :: u8
  fh_frag_off :: u16
  fh_identification :: u32

definition frag_hdr_bytes :: "byte_order \<Rightarrow> frag_hdr \<Rightarrow> bytes" where
  "frag_hdr_bytes e h =
     [fh_nexthdr h, fh_reserved h] @ st16 e (fh_frag_off h) @ st32 e (fh_identification h)"

definition frag_hdr_of :: "byte_order \<Rightarrow> bytes \<Rightarrow> frag_hdr" where
  "frag_hdr_of e b =
     \<lparr>fh_nexthdr = b ! 0, fh_reserved = b ! 1, fh_frag_off = ld16 e (b ! 2) (b ! 3),
      fh_identification = ld32 e (b ! 4) (b ! 5) (b ! 6) (b ! 7)\<rparr>"

text \<open>\<open>struct icmphdr\<close>, with the members of its union that the program sets.\<close>

datatype icmp_un = Echo u16 u16 | Gateway u32 | Frag u16 u16

record icmphdr =
  icmp_type :: u8
  icmp_code :: u8
  icmp_checksum :: u16
  icmp_rest :: icmp_un

fun icmp_un_bytes :: "byte_order \<Rightarrow> icmp_un \<Rightarrow> bytes" where
  "icmp_un_bytes e (Echo i sq) = st16 e i @ st16 e sq"
| "icmp_un_bytes e (Gateway g) = st32 e g"
| "icmp_un_bytes e (Frag u mtu) = st16 e u @ st16 e mtu"

definition icmphdr_bytes :: "byte_order \<Rightarrow> icmphdr \<Rightarrow> bytes" where
  "icmphdr_bytes e h =
     [icmp_type h, icmp_code h] @ st16 e (icmp_checksum h) @ icmp_un_bytes e (icmp_rest h)"

record pseudo6 =
  p6_saddr :: in6_addr
  p6_daddr :: in6_addr
  p6_len :: u32
  p6_nexthdr :: u32

definition pseudo6_bytes :: "byte_order \<Rightarrow> pseudo6 \<Rightarrow> bytes" where
  "pseudo6_bytes e p =
     in6_bytes e (p6_saddr p) @ in6_bytes e (p6_daddr p) @ st32 e (p6_len p) @ st32 e (p6_nexthdr p)"

section \<open>Constants\<close>

abbreviation (input) "ETH_HLEN \<equiv> 14 :: nat"
abbreviation (input) "IP6_HLEN \<equiv> 40 :: nat"
abbreviation (input) "IP4_HLEN \<equiv> 20 :: nat"
abbreviation (input) "FRAG_HLEN \<equiv> 8 :: nat"

definition IP_DF :: u16 where [const_defs]: "IP_DF = 0x4000"
definition IP_MF :: u16 where [const_defs]: "IP_MF = 0x2000"
definition IP_OFFSET :: u16 where [const_defs]: "IP_OFFSET = 0x1fff"

definition ICMP_ECHOREPLY :: u8 where [const_defs]: "ICMP_ECHOREPLY = 0"
definition ICMP_DEST_UNREACH :: u8 where [const_defs]: "ICMP_DEST_UNREACH = 3"
definition ICMP_ECHO :: u8 where [const_defs]: "ICMP_ECHO = 8"
definition ICMP_TIME_EXCEEDED :: u8 where [const_defs]: "ICMP_TIME_EXCEEDED = 11"
definition ICMP_PARAMETERPROB :: u8 where [const_defs]: "ICMP_PARAMETERPROB = 12"
definition ICMP_HOST_UNREACH :: u8 where [const_defs]: "ICMP_HOST_UNREACH = 1"
definition ICMP_PROT_UNREACH :: u8 where [const_defs]: "ICMP_PROT_UNREACH = 2"
definition ICMP_PORT_UNREACH :: u8 where [const_defs]: "ICMP_PORT_UNREACH = 3"
definition ICMP_FRAG_NEEDED :: u8 where [const_defs]: "ICMP_FRAG_NEEDED = 4"
definition ICMP_HOST_ANO :: u8 where [const_defs]: "ICMP_HOST_ANO = 10"

definition CSUM_CHUNK :: nat where [const_defs]: "CSUM_CHUNK = 256"
definition CSUM_MAX_CHUNKS :: nat where [const_defs]: "CSUM_MAX_CHUNKS = 40"
definition IPOPT_LSRR_T :: u8 where [const_defs]: "IPOPT_LSRR_T = 131"
definition IPOPT_SSRR_T :: u8 where [const_defs]: "IPOPT_SSRR_T = 137"

definition STORE_FLAGS :: u64 where [const_defs]: "STORE_FLAGS = BPF_F_RECOMPUTE_CSUM"
definition ROOM_FLAGS :: u64 where
  [const_defs]: "ROOM_FLAGS = BPF_F_ADJ_ROOM_FIXED_GSO OR BPF_F_ADJ_ROOM_NO_CSUM_RESET"

text \<open>Protocol numbers of \<open>linux/in.h\<close>, \<open>linux/in6.h\<close> and \<open>linux/icmpv6.h\<close>.\<close>

abbreviation (input) "IPPROTO_HOPOPTS \<equiv> 0 :: u8"
abbreviation (input) "IPPROTO_ICMP \<equiv> 1 :: u8"
abbreviation (input) "IPPROTO_TCP \<equiv> 6 :: u8"
abbreviation (input) "IPPROTO_UDP \<equiv> 17 :: u8"
abbreviation (input) "IPPROTO_ROUTING \<equiv> 43 :: u8"
abbreviation (input) "IPPROTO_FRAGMENT \<equiv> 44 :: u8"
abbreviation (input) "IPPROTO_AH \<equiv> 51 :: u8"
abbreviation (input) "IPPROTO_ICMPV6 \<equiv> 58 :: u8"
abbreviation (input) "IPPROTO_NONE \<equiv> 59 :: u8"
abbreviation (input) "IPPROTO_DSTOPTS \<equiv> 60 :: u8"
abbreviation (input) "IPPROTO_MH \<equiv> 135 :: u8"

abbreviation (input) "ICMPV6_DEST_UNREACH \<equiv> 1 :: u8"
abbreviation (input) "ICMPV6_PKT_TOOBIG \<equiv> 2 :: u8"
abbreviation (input) "ICMPV6_TIME_EXCEED \<equiv> 3 :: u8"
abbreviation (input) "ICMPV6_PARAMPROB \<equiv> 4 :: u8"
abbreviation (input) "ICMPV6_ECHO_REQUEST \<equiv> 128 :: u8"
abbreviation (input) "ICMPV6_ECHO_REPLY \<equiv> 129 :: u8"
abbreviation (input) "ICMPV6_NOROUTE \<equiv> 0 :: u8"
abbreviation (input) "ICMPV6_ADM_PROHIBITED \<equiv> 1 :: u8"
abbreviation (input) "ICMPV6_NOT_NEIGHBOUR \<equiv> 2 :: u8"
abbreviation (input) "ICMPV6_ADDR_UNREACH \<equiv> 3 :: u8"
abbreviation (input) "ICMPV6_PORT_UNREACH \<equiv> 4 :: u8"
abbreviation (input) "ICMPV6_POLICY_FAIL \<equiv> 5 :: u8"
abbreviation (input) "ICMPV6_REJECT_ROUTE \<equiv> 6 :: u8"
abbreviation (input) "ICMPV6_HDR_FIELD \<equiv> 0 :: u8"
abbreviation (input) "ICMPV6_UNK_NEXTHDR \<equiv> 1 :: u8"

section \<open>Per-pod constants, counters and verdicts\<close>

record rodata =
  CLAT_PREFIX :: in6_addr
  POD_IP6 :: in6_addr
  POD_IP4 :: u32
  ERR_IP4 :: u32

datatype clat_counter =
    CNT_EGRESS_TRANSLATED
  | CNT_INGRESS_TRANSLATED
  | CNT_EGRESS_DROP_TRUNCATED
  | CNT_EGRESS_DROP_BAD_SRC
  | CNT_EGRESS_DROP_MCAST
  | CNT_EGRESS_DROP_SRCROUTE
  | CNT_EGRESS_DROP_FRAG_NO_CSUM
  | CNT_EGRESS_DROP_ICMP_UNSUPPORTED
  | CNT_EGRESS_DROP_TOO_BIG
  | CNT_EGRESS_DROP_HELPER
  | CNT_INGRESS_DROP_TRUNCATED
  | CNT_INGRESS_DROP_EXTHDR
  | CNT_INGRESS_DROP_UDP_ZERO_CSUM
  | CNT_INGRESS_DROP_FRAG_ICMP
  | CNT_INGRESS_DROP_ICMP_UNSUPPORTED
  | CNT_INGRESS_DROP_ICMP_INNER
  | CNT_INGRESS_DROP_HELPER
  | CNT_MAX

fun counter_index :: "clat_counter \<Rightarrow> u32" where
  "counter_index CNT_EGRESS_TRANSLATED = 0"
| "counter_index CNT_INGRESS_TRANSLATED = 1"
| "counter_index CNT_EGRESS_DROP_TRUNCATED = 2"
| "counter_index CNT_EGRESS_DROP_BAD_SRC = 3"
| "counter_index CNT_EGRESS_DROP_MCAST = 4"
| "counter_index CNT_EGRESS_DROP_SRCROUTE = 5"
| "counter_index CNT_EGRESS_DROP_FRAG_NO_CSUM = 6"
| "counter_index CNT_EGRESS_DROP_ICMP_UNSUPPORTED = 7"
| "counter_index CNT_EGRESS_DROP_TOO_BIG = 8"
| "counter_index CNT_EGRESS_DROP_HELPER = 9"
| "counter_index CNT_INGRESS_DROP_TRUNCATED = 10"
| "counter_index CNT_INGRESS_DROP_EXTHDR = 11"
| "counter_index CNT_INGRESS_DROP_UDP_ZERO_CSUM = 12"
| "counter_index CNT_INGRESS_DROP_FRAG_ICMP = 13"
| "counter_index CNT_INGRESS_DROP_ICMP_UNSUPPORTED = 14"
| "counter_index CNT_INGRESS_DROP_ICMP_INNER = 15"
| "counter_index CNT_INGRESS_DROP_HELPER = 16"
| "counter_index CNT_MAX = 17"

record world =
  w_skb :: skb
  clat_counters :: "u64 list"

text \<open>The map declaration: \<open>max_entries\<close> is \<open>CNT_MAX\<close>, the values are \<open>__u64\<close>.\<close>

definition counters_init :: "u64 list" where
  "counters_init = replicate (unat (counter_index CNT_MAX)) 0"

datatype tc_act = TC_ACT_OK | TC_ACT_SHOT

datatype 'a step = Fault | Return tc_act world | Next 'a

definition bind_step :: "'a step \<Rightarrow> ('a \<Rightarrow> 'b step) \<Rightarrow> 'b step" where
  "bind_step m f = (case m of Fault \<Rightarrow> Fault | Return a w \<Rightarrow> Return a w | Next x \<Rightarrow> f x)"

definition count :: "kernel \<Rightarrow> clat_counter \<Rightarrow> world \<Rightarrow> world" where
  "count K key w =
     (case bpf_map_lookup_elem K (clat_counters w) (counter_index key) of
        None \<Rightarrow> w
      | Some v \<Rightarrow> w\<lparr>clat_counters := (clat_counters w)[v := clat_counters w ! v + 1]\<rparr>)"

definition DROP :: "kernel \<Rightarrow> clat_counter \<Rightarrow> world \<Rightarrow> 'a step" where
  "DROP K key w = Return TC_ACT_SHOT (count K key w)"

section \<open>Inline functions\<close>

definition prefix_copy :: "in6_addr \<Rightarrow> in6_addr" where
  "prefix_copy src =
     \<lparr>u6_addr32_0 = u6_addr32_0 src, u6_addr32_1 = u6_addr32_1 src,
      u6_addr32_2 = u6_addr32_2 src, u6_addr32_3 = u6_addr32_3 src\<rparr>"

definition addr6_eq :: "in6_addr \<Rightarrow> in6_addr \<Rightarrow> bool" where
  "addr6_eq a b \<longleftrightarrow>
     u6_addr32_0 a = u6_addr32_0 b \<and> u6_addr32_1 a = u6_addr32_1 b \<and>
     u6_addr32_2 a = u6_addr32_2 b \<and> u6_addr32_3 a = u6_addr32_3 b"

definition in_prefix :: "rodata \<Rightarrow> in6_addr \<Rightarrow> bool" where
  "in_prefix R a \<longleftrightarrow>
     u6_addr32_0 a = u6_addr32_0 (CLAT_PREFIX R) \<and>
     u6_addr32_1 a = u6_addr32_1 (CLAT_PREFIX R) \<and>
     u6_addr32_2 a = u6_addr32_2 (CLAT_PREFIX R)"

definition ensure_linear :: "kernel \<Rightarrow> skb \<Rightarrow> nat \<Rightarrow> bool \<times> skb" where
  "ensure_linear K s len =
     (if linear s \<ge> len then (True, s)
      else let (rc, s) = bpf_skb_pull_data K s len
           in if rc < 0 then (False, s) else (linear s \<ge> len, s))"

definition is_ext_hdr :: "u8 \<Rightarrow> bool" where
  "is_ext_hdr nh \<longleftrightarrow>
     nh = IPPROTO_HOPOPTS \<or> nh = IPPROTO_ROUTING \<or> nh = IPPROTO_FRAGMENT \<or>
     nh = IPPROTO_DSTOPTS \<or> nh = IPPROTO_AH \<or> nh = IPPROTO_NONE \<or> nh = IPPROTO_MH \<or>
     nh = 139 \<or> nh = 140"

section \<open>Byte images: lengths and round trips\<close>

lemma length_in6_bytes [simp]: "length (in6_bytes e a) = 16"
  by (simp add: in6_bytes_def)

lemma length_iphdr_bytes [simp]: "length (iphdr_bytes e h) = 20"
  by (simp add: iphdr_bytes_def)

lemma length_ipv6hdr_bytes [simp]: "length (ipv6hdr_bytes e h) = 40"
  by (simp add: ipv6hdr_bytes_def)

lemma length_frag_hdr_bytes [simp]: "length (frag_hdr_bytes e h) = 8"
  by (simp add: frag_hdr_bytes_def)

lemma length_icmp_un_bytes [simp]: "length (icmp_un_bytes e u) = 4"
  by (cases u) simp_all

lemma length_icmphdr_bytes [simp]: "length (icmphdr_bytes e h) = 8"
  by (simp add: icmphdr_bytes_def)

lemma length_pseudo6_bytes [simp]: "length (pseudo6_bytes e p) = 40"
  by (simp add: pseudo6_bytes_def)

text \<open>Byte strings of a known length, as the list of their elements.\<close>

lemma nths_upt: "length b = n \<Longrightarrow> map ((!) b) [0..<n] = b"
  using map_nth [of b] by simp

lemma nths_window:
  assumes "off + n \<le> length b"
  shows "map ((!) b) [off..<off + n] = window off n b"
  using assms by (intro nth_equalityI) (simp_all add: nth_window)

lemma in6_bytes_in6_of:
  assumes "length b = 16"
  shows "in6_bytes e (in6_of e b) = b"
proof -
  have "in6_bytes e (in6_of e b) = map ((!) b) [0..<16]"
    by (simp add: in6_bytes_def in6_of_def upt_rec numeral_eq_Suc)
  then show ?thesis using assms by (simp add: nths_upt)
qed

lemma in6_of_in6_bytes: "in6_of e (in6_bytes e a) = a"
  by (cases e) (simp_all add: in6_bytes_def in6_of_def)

interpretation in6: wire_struct 16 "in6_bytes e" "in6_of e" "\<lambda>_. True" for e
  by unfold_locales (simp_all add: in6_of_in6_bytes in6_bytes_in6_of)

lemma nibbles: "push_bit 4 (drop_bit 4 x) OR (x AND 0xf) = (x :: u8)"
proof -
  have "(0xf :: u8) = mask 4" by (simp add: mask_numeral)
  then show ?thesis
    by (simp only: flip: take_bit_eq_mask) (rule bit_eqI, auto simp: bit_simps)
qed

lemma iphdr_bytes_iphdr_of:
  assumes "length b = 20"
  shows "iphdr_bytes e (iphdr_of e b) = b"
proof -
  have "iphdr_bytes e (iphdr_of e b) = map ((!) b) [0..<20]"
    by (simp add: iphdr_bytes_def iphdr_of_def nibbles) (simp add: upt_rec numeral_eq_Suc)
  then show ?thesis using assms by (simp add: nths_upt)
qed

lemma ipv6hdr_bytes_ipv6hdr_of:
  assumes "length b = 40"
  shows "ipv6hdr_bytes e (ipv6hdr_of e b) = b"
proof -
  have "ipv6hdr_bytes e (ipv6hdr_of e b) = map ((!) b) [0..<8] @ window 8 16 b @ window 24 16 b"
    using assms by (simp add: ipv6hdr_bytes_def ipv6hdr_of_def in6_bytes_in6_of)
      (simp add: upt_rec numeral_eq_Suc)
  also have "map ((!) b) [0..<8] = take 8 b"
    using assms nths_window [of 0 8 b] by (simp add: window_def)
  also have "window 8 16 b @ window 24 16 b = drop 8 b"
    using assms append_take_drop_id [of 16 "drop 8 b"] by (simp add: window_def)
  also have "take 8 b @ drop 8 b = b" by simp
  finally show ?thesis .
qed

lemma frag_hdr_bytes_frag_hdr_of:
  assumes "length b = 8"
  shows "frag_hdr_bytes e (frag_hdr_of e b) = b"
proof -
  have "frag_hdr_bytes e (frag_hdr_of e b) = map ((!) b) [0..<8]"
    by (simp add: frag_hdr_bytes_def frag_hdr_of_def upt_rec numeral_eq_Suc)
  then show ?thesis using assms by (simp add: nths_upt)
qed

lemma drop_4_nibble:
  assumes "unat v < 16" and "unat i < 16"
  shows "drop_bit 4 (push_bit 4 v OR i) = (v :: u8)" and "(push_bit 4 v OR i) AND 0xf = (i :: u8)"
proof -
  have m: "(0xf :: u8) = mask 4" by (simp add: mask_numeral)
  have "take_bit 4 v = v" and "take_bit 4 i = i"
    using assms by (simp_all add: word_unat_eq_iff unsigned_take_bit_eq take_bit_nat_eq_self)
  then have v: "bit v n \<Longrightarrow> n < 4" and i: "bit i n \<Longrightarrow> n < 4" for n
    by (metis bit_take_bit_iff)+
  show "drop_bit 4 (push_bit 4 v OR i) = v"
    by (rule bit_eqI) (auto simp: bit_simps dest: v i)
  show "(push_bit 4 v OR i) AND 0xf = i"
    unfolding m take_bit_eq_mask [symmetric]
    by (rule bit_eqI) (auto simp: bit_simps dest: v i)
qed

lemma iphdr_of_iphdr_bytes: "iphdr_ok h \<Longrightarrow> iphdr_of e (iphdr_bytes e h) = h"
  by (cases e) (simp_all add: iphdr_bytes_def iphdr_of_def iphdr_ok_def drop_4_nibble del: drop_bit_or)

lemma iphdr_of_ok: "iphdr_ok (iphdr_of e b)"
proof -
  have "unat (drop_bit 4 x) < 16" for x :: u8
    using unat_u8_less [of x] by (simp only: unsigned_drop_bit_eq)
      (simp add: drop_bit_eq_div take_bit_eq_mod less_mult_imp_div_less)
  moreover have "unat (x AND 0xf) < 16" for x :: u8
  proof -
    have "x AND 0xf = take_bit 4 x" by (simp only: take_bit_eq_mask) (simp add: mask_numeral)
    then show ?thesis by (simp only: unsigned_take_bit_eq) (simp add: take_bit_eq_mod)
  qed
  ultimately show ?thesis by (simp add: iphdr_ok_def iphdr_of_def)
qed

interpretation ip4h: wire_struct 20 "iphdr_bytes e" "iphdr_of e" iphdr_ok for e
  by unfold_locales (simp_all add: iphdr_of_iphdr_bytes iphdr_bytes_iphdr_of iphdr_of_ok)

lemma window_in6_bytes [simp]:
  "window 8 16 (ipv6hdr_bytes e h) = in6_bytes e (ip6_saddr h)"
  "window 24 16 (ipv6hdr_bytes e h) = in6_bytes e (ip6_daddr h)"
  by (simp_all add: window_def ipv6hdr_bytes_def)

lemma ipv6hdr_of_ipv6hdr_bytes: "ipv6hdr_of e (ipv6hdr_bytes e h) = h"
  unfolding ipv6hdr_of_def window_in6_bytes in6_of_in6_bytes
  by (cases e) (simp_all add: ipv6hdr_bytes_def)

interpretation ip6h: wire_struct 40 "ipv6hdr_bytes e" "ipv6hdr_of e" "\<lambda>_. True" for e
  by unfold_locales (simp_all add: ipv6hdr_of_ipv6hdr_bytes ipv6hdr_bytes_ipv6hdr_of)

lemma frag_hdr_of_frag_hdr_bytes: "frag_hdr_of e (frag_hdr_bytes e h) = h"
  by (cases e) (simp_all add: frag_hdr_bytes_def frag_hdr_of_def)

interpretation fragh: wire_struct 8 "frag_hdr_bytes e" "frag_hdr_of e" "\<lambda>_. True" for e
  by unfold_locales (simp_all add: frag_hdr_of_frag_hdr_bytes frag_hdr_bytes_frag_hdr_of)

section \<open>Addresses and verdicts\<close>

lemma prefix_copy_id [simp]: "prefix_copy a = a"
  by (simp add: prefix_copy_def)

lemma addr6_eq_iff [simp]: "addr6_eq a b \<longleftrightarrow> a = b"
  by (cases a; cases b) (simp add: addr6_eq_def)

lemma in_prefix_bytes:
  "in_prefix R a \<longleftrightarrow> take 12 (in6_bytes e a) = take 12 (in6_bytes e (CLAT_PREFIX R))"
  by (simp add: in_prefix_def in6_bytes_def append_eq_append_conv)

lemma bind_step_simps [simp]:
  "bind_step Fault f = Fault" "bind_step (Return a w) f = Return a w" "bind_step (Next x) f = f x"
  by (simp_all add: bind_step_def)

lemma bind_step_Return:
  "bind_step m f = Return a w \<longleftrightarrow> m = Return a w \<or> (\<exists>x. m = Next x \<and> f x = Return a w)"
  by (cases m) simp_all

lemma bind_step_Fault:
  "bind_step m f = Fault \<longleftrightarrow> m = Fault \<or> (\<exists>x. m = Next x \<and> f x = Fault)"
  by (cases m) simp_all

lemma counter_index_inject [simp]: "counter_index a = counter_index b \<longleftrightarrow> a = b"
  by (cases a; cases b) simp_all

lemma counter_index_bound: "a \<noteq> CNT_MAX \<Longrightarrow> unat (counter_index a) < unat (counter_index CNT_MAX)"
  by (cases a) simp_all

lemma count_skb [simp]: "w_skb (count K key w) = w_skb w"
  by (simp add: count_def split: option.splits)

section \<open>Counting and linearising under the kernel's contract\<close>

context bpf_kernel
begin

lemma count_counters:
  assumes "key \<noteq> CNT_MAX" and "length (clat_counters w) = unat (counter_index CNT_MAX)"
  shows "clat_counters (count K key w) =
    (clat_counters w)[unat (counter_index key) := clat_counters w ! unat (counter_index key) + 1]"
  using counter_index_bound [OF assms(1)] assms(2) by (simp add: count_def map_lookup)

lemma length_count [simp]: "length (clat_counters (count K key w)) = length (clat_counters w)"
  by (simp add: count_def map_lookup)

lemma ensure_linear_frame:
  assumes "ensure_linear K s n = (b, s')"
  shows "pkt s' = pkt s \<and> protocol s' = protocol s \<and> ip_summed s' = ip_summed s"
  using assms pull_frame [of s n]
  by (auto simp: ensure_linear_def split: if_splits prod.splits)

lemma ensure_linear_wf: "ensure_linear K s n = (b, s') \<Longrightarrow> skb_wf s \<Longrightarrow> skb_wf s'"
  using pull_wf [of s n] by (auto simp: ensure_linear_def split: if_splits prod.splits)

end

lemma ensure_linear_True: "ensure_linear K s n = (True, s') \<Longrightarrow> n \<le> linear s'"
  by (auto simp: ensure_linear_def split: if_splits prod.splits)

context bpf_kernel_live
begin

lemma ensure_linear_live:
  assumes "skb_wf s" and "0 < n" and "n \<le> length (pkt s)"
  shows "\<exists>s'. ensure_linear K s n = (True, s')"
  using pull_live [OF assms(2,3,1)] by (auto simp: ensure_linear_def split: prod.splits)

end

section \<open>Properties\<close>



end
