(* ===== verification/Icmp_Map.thy ===== *)
theory Icmp_Map
  imports Clat_Base
begin

text \<open>
  The translation of ICMPv6 errors to ICMPv4 errors (\<open>icmp6_to_icmp4\<close> of
  \<open>bpf/clat.c\<close>). The reference is the mapping of RFC 7915 section 5.2, written as a
  function on type, code and pointer: \<open>None\<close> where the RFC has the error dropped. The
  lemmas say where the program follows it and where it departs from it.
\<close>

section \<open>The program\<close>

record icmp_map =
  m_type :: u8
  m_code :: u8
  m_ok :: bool

text \<open>\<open>*pointer4\<close> goes in and comes out.\<close>

definition icmp6_to_icmp4 :: "u8 \<Rightarrow> u8 \<Rightarrow> u32 \<Rightarrow> u32 \<Rightarrow> icmp_map \<times> u32" where
  "icmp6_to_icmp4 type code pointer6 pointer4 =
     (let m = \<lparr>m_type = 0, m_code = 0, m_ok = True\<rparr>
      in if type = ICMPV6_DEST_UNREACH then
           (m\<lparr>m_type := ICMP_DEST_UNREACH,
              m_code :=
                (if code = ICMPV6_NOROUTE \<or> code = ICMPV6_NOT_NEIGHBOUR \<or> code = ICMPV6_ADDR_UNREACH
                 then ICMP_HOST_UNREACH
                 else if code = ICMPV6_ADM_PROHIBITED \<or> code = ICMPV6_POLICY_FAIL \<or> code = ICMPV6_REJECT_ROUTE
                 then ICMP_HOST_ANO
                 else if code = ICMPV6_PORT_UNREACH then ICMP_PORT_UNREACH
                 else ICMP_HOST_UNREACH)\<rparr>, pointer4)
         else if type = ICMPV6_PKT_TOOBIG then
           (m\<lparr>m_type := ICMP_DEST_UNREACH, m_code := ICMP_FRAG_NEEDED\<rparr>, pointer4)
         else if type = ICMPV6_TIME_EXCEED then
           (m\<lparr>m_type := ICMP_TIME_EXCEEDED, m_code := code\<rparr>, pointer4)
         else if type = ICMPV6_PARAMPROB then
           if code = ICMPV6_UNK_NEXTHDR then
             (m\<lparr>m_type := ICMP_DEST_UNREACH, m_code := ICMP_PROT_UNREACH\<rparr>, pointer4)
           else if code \<noteq> ICMPV6_HDR_FIELD then (m\<lparr>m_ok := False\<rparr>, pointer4)
           else
             let m = m\<lparr>m_type := ICMP_PARAMETERPROB, m_code := 0\<rparr>
             in if pointer6 = 0 then (m, 0)
                else if pointer6 = 4 then (m, 2)
                else if pointer6 = 6 then (m, 9)
                else if pointer6 = 7 then (m, 8)
                else if pointer6 = 8 then (m, 12)
                else if pointer6 = 24 then (m, 16)
                else (m\<lparr>m_ok := False\<rparr>, pointer4)
         else (m\<lparr>m_ok := False\<rparr>, pointer4))"

section \<open>RFC 7915, section 5.2\<close>

text \<open>Where a byte of the IPv6 header went in the IPv4 header.\<close>

definition rfc_pointer :: "nat \<Rightarrow> nat option" where
  "rfc_pointer n =
     (if n = 0 then Some 0 else if n = 1 then Some 1 else if n = 4 \<or> n = 5 then Some 2
      else if n = 6 then Some 9 else if n = 7 then Some 8
      else if 8 \<le> n \<and> n \<le> 23 then Some 12 else if 24 \<le> n \<and> n \<le> 39 then Some 16 else None)"

text \<open>ICMPv4 type, code and pointer of an ICMPv6 error.\<close>

fun rfc_icmp4 :: "nat \<Rightarrow> nat \<Rightarrow> nat \<Rightarrow> (nat \<times> nat \<times> nat) option" where
  "rfc_icmp4 t c ptr =
     (if t = 1 then
        if c = 0 \<or> c = 2 \<or> c = 3 then Some (3, 1, 0)
        else if c = 1 then Some (3, 10, 0)
        else if c = 4 then Some (3, 3, 0) else None
      else if t = 2 then Some (3, 4, 0)
      else if t = 3 then Some (11, c, 0)
      else if t = 4 then
        if c = 0 then map_option (\<lambda>q. (12, 0, q)) (rfc_pointer ptr)
        else if c = 1 then Some (3, 2, 0) else None
      else None)"

text \<open>The first bytes of the fields that exist in both headers.\<close>

definition field_start :: "nat \<Rightarrow> bool" where
  "field_start n \<longleftrightarrow> n \<in> {0, 4, 6, 7, 8, 24}"

lemmas icmp_map_simps = icmp6_to_icmp4_def Let_def const_defs

section \<open>Properties\<close>

text \<open>
  (C25) Where the program translates an error that RFC 7915 has a translation
  for, type, code and pointer are the ones of the RFC.
\<close>

theorem icmp_map_sound:
  assumes "icmp6_to_icmp4 t c ptr 0 = (m, q)" and "m_ok m"
    and "rfc_icmp4 (unat t) (unat c) (unat ptr) = Some r"
  shows "(unat (m_type m), unat (m_code m), unat q) = r"
proof -
  have "unat t = 1 \<Longrightarrow> t = 1" by (simp add: word_unat_eq_iff)
  with assms show ?thesis
    by (auto simp: icmp_map_simps rfc_pointer_def word_unat_eq_iff split: if_splits)
qed

theorem icmp_map_sound_witness:
  "(unat (m_type (fst (icmp6_to_icmp4 4 0 24 0))), unat (m_code (fst (icmp6_to_icmp4 4 0 24 0))),
    unat (snd (icmp6_to_icmp4 4 0 24 0))) = (12, 0, 16)"
  by (rule icmp_map_sound [OF prod.collapse [symmetric]]) (simp_all add: icmp_map_simps rfc_pointer_def)

text \<open>
  (C26) Every error that RFC 7915 translates is translated, with one
  exception: a parameter problem whose pointer is not the first byte of a field that both
  headers have.
\<close>

theorem icmp_map_complete:
  assumes "rfc_icmp4 (unat t) (unat c) (unat ptr) \<noteq> None"
  shows "m_ok (fst (icmp6_to_icmp4 t c ptr q)) \<longleftrightarrow> \<not> (t = 4 \<and> c = 0 \<and> \<not> field_start (unat ptr))"
  using assms
  by (auto simp: icmp_map_simps rfc_pointer_def field_start_def word_unat_eq_iff split: if_splits)

theorem icmp_map_complete_witness:
  "\<not> m_ok (fst (icmp6_to_icmp4 4 0 12 0))"
  using icmp_map_complete [of 4 0 12 0] by (simp add: rfc_pointer_def field_start_def)

text \<open>
  (C36) Beyond RFC 7915 the program translates exactly the destination
  unreachable errors with codes the RFC does not list: codes 5 and 6 to "administratively
  prohibited", any other to "host unreachable". Every other error without a translation in
  the RFC is rejected.
\<close>

theorem icmp_map_extra:
  assumes "rfc_icmp4 (unat t) (unat c) (unat ptr) = None"
  shows "(m_ok (fst (icmp6_to_icmp4 t c ptr q)) \<longleftrightarrow> t = 1) \<and>
    (t = 1 \<longrightarrow> m_code (fst (icmp6_to_icmp4 t c ptr q)) = (if c = 5 \<or> c = 6 then ICMP_HOST_ANO else ICMP_HOST_UNREACH))"
  using assms
  by (auto simp: icmp_map_simps rfc_pointer_def word_unat_eq_iff split: if_splits)

theorem icmp_map_extra_witness:
  "m_code (fst (icmp6_to_icmp4 1 5 0 0)) = ICMP_HOST_ANO"
  using icmp_map_extra [of 1 5 0 0] by simp

end
