(* ===== verification/Verdicts.thy ===== *)
theory Verdicts
  imports Clat_Base
begin

text \<open>
  What every run of a program owes its caller: it returns, and its counters say how it
  ended. \<open>outcome\<close> relates one run to the counter array; the locale \<open>tc_program\<close>
  states the contract that \<open>clat_egress\<close> and \<open>clat_ingress\<close> share and derives from it
  how much one run adds to the drop counters.
\<close>

section \<open>Verdicts and counters\<close>

text \<open>One tick of a counter.\<close>

definition tick :: "clat_counter \<Rightarrow> u64 list \<Rightarrow> u64 list" where
  "tick k cs = cs[unat (counter_index k) := cs ! unat (counter_index k) + 1]"

text \<open>
  How a handler may end, for the counters \<open>cs\<close> it started with: a drop counts its reason,
  a translation counts itself, and a packet that is let through counts nothing.
\<close>

definition outcome :: "clat_counter \<Rightarrow> clat_counter set \<Rightarrow> world \<Rightarrow> 'a step \<Rightarrow> bool" where
  "outcome tr drops w m \<longleftrightarrow>
     (case m of
        Return TC_ACT_SHOT w' \<Rightarrow> \<exists>k \<in> drops. clat_counters w' = tick k (clat_counters w)
      | Return TC_ACT_OK w' \<Rightarrow>
          clat_counters w' = tick tr (clat_counters w) \<or>
          clat_counters w' = clat_counters w \<and> pkt (w_skb w') = pkt (w_skb w)
      | Next _ \<Rightarrow> True | Fault \<Rightarrow> False)"

abbreviation "counters_ok w \<equiv> length (clat_counters w) = unat (counter_index CNT_MAX)"

context bpf_kernel
begin

lemma DROP_outcome:
  assumes "counters_ok w" and "clat_counters v = clat_counters w" and "k \<in> drops" and "k \<noteq> CNT_MAX"
  shows "outcome tr drops w (DROP K k v)"
  using assms count_counters [of k v] by (auto simp: outcome_def DROP_def tick_def)

lemma done_outcome:
  assumes "counters_ok w" and "clat_counters v = clat_counters w" and "tr \<noteq> CNT_MAX"
  shows "outcome tr drops w (Return TC_ACT_OK (count K tr v))"
  using assms count_counters [of tr v] by (auto simp: outcome_def tick_def)

end

lemma bind_step_outcome:
  assumes "outcome tr drops w m" and "\<And>x. m = Next x \<Longrightarrow> outcome tr drops w (f x)"
  shows "outcome tr drops w (bind_step m f)"
  using assms by (cases m) (simp_all add: outcome_def)

lemma outcome_If:
  "(c \<Longrightarrow> outcome tr drops w m) \<Longrightarrow> (\<not> c \<Longrightarrow> outcome tr drops w m') \<Longrightarrow>
   outcome tr drops w (if c then m else m')"
  by simp

lemma outcome_option:
  "(x = None \<Longrightarrow> outcome tr drops w m) \<Longrightarrow> (\<And>y. x = Some y \<Longrightarrow> outcome tr drops w (f y)) \<Longrightarrow>
   outcome tr drops w (case x of None \<Rightarrow> m | Some y \<Rightarrow> f y)"
  by (cases x) simp_all

lemma outcome_pass [simp]: "outcome tr drops w (Return TC_ACT_OK w)"
  by (simp add: outcome_def)

lemma outcome_Next [simp]: "outcome tr drops w (Next x)"
  by (simp add: outcome_def)


lemma length_tick [simp]: "length (tick k cs) = length cs"
  by (simp add: tick_def)

section \<open>Counting\<close>

definition total :: "clat_counter set \<Rightarrow> u64 list \<Rightarrow> u64" where
  "total ks cs = (\<Sum>k \<in> ks. cs ! unat (counter_index k))"

lemma counter_index_unat_inject: "unat (counter_index a) = unat (counter_index b) \<longleftrightarrow> a = b"
  by (simp flip: word_unat_eq_iff)

lemma total_tick:
  assumes "finite ks" and "k \<noteq> CNT_MAX" and "length cs = unat (counter_index CNT_MAX)"
  shows "total ks (tick k cs) = total ks cs + (if k \<in> ks then 1 else 0)"
proof -
  have "tick k cs ! unat (counter_index j) = cs ! unat (counter_index j) + (if j = k then 1 else 0)" for j
    using assms(2,3) counter_index_bound [OF assms(2)]
    by (simp add: tick_def nth_list_update counter_index_unat_inject)
  then show ?thesis
    using assms(1) by (simp add: total_def sum.distrib)
qed

locale tc_program =
  fixes run :: "world \<Rightarrow> unit step" and tr :: clat_counter and drops :: "clat_counter set"
  assumes returns: "\<exists>a w'. run w = Return a w'"
    and accounts: "counters_ok w \<Longrightarrow> outcome tr drops w (run w)"
    and finite_drops: "finite drops"
    and tr_not_drop: "tr \<notin> drops"
    and not_max: "tr \<noteq> CNT_MAX" "CNT_MAX \<notin> drops"
begin

lemma run_cases:
  assumes "counters_ok w"
  obtains (shot) w' k where "run w = Return TC_ACT_SHOT w'" "k \<in> drops" "clat_counters w' = tick k (clat_counters w)"
    | (translated) w' where "run w = Return TC_ACT_OK w'" "clat_counters w' = tick tr (clat_counters w)"
    | (passed) w' where "run w = Return TC_ACT_OK w'" "clat_counters w' = clat_counters w"
        "pkt (w_skb w') = pkt (w_skb w)"
proof -
  obtain a w' where r: "run w = Return a w'" using returns by blast
  show thesis
  proof (cases a)
    case TC_ACT_OK
    with r accounts [OF assms] show ?thesis
      using translated [of w'] passed [of w'] by (auto simp: outcome_def)
  next
    case TC_ACT_SHOT
    with r accounts [OF assms] show ?thesis
      using shot [of w'] by (auto simp: outcome_def)
  qed
qed

text \<open>
  A run adds one to the total of the drop counters when it drops the packet (in the 64-bit
  arithmetic of the counters), and leaves the counters of other programs alone.
\<close>

lemma run_total:
  assumes "run w = Return a w'" and "counters_ok w"
  shows "total drops (clat_counters w') = total drops (clat_counters w) + (if a = TC_ACT_SHOT then 1 else 0) \<and> counters_ok w'"
  using assms(2)
proof (cases rule: run_cases)
  case (shot v k)
  then have "k \<noteq> CNT_MAX" using not_max by auto
  with shot assms finite_drops show ?thesis by (simp add: total_tick)
next
  case (translated v)
  with assms finite_drops tr_not_drop not_max show ?thesis by (simp add: total_tick)
qed (use assms in simp)

lemma run_other:
  assumes "run w = Return a w'" and "counters_ok w" and "finite ks" and "tr \<notin> ks" and "drops \<inter> ks = {}"
  shows "total ks (clat_counters w') = total ks (clat_counters w)"
  using assms(2)
proof (cases rule: run_cases)
  case (shot v k)
  then have "k \<noteq> CNT_MAX" "k \<notin> ks" using not_max assms(5) by auto
  with shot assms(1-3) show ?thesis by (simp add: total_tick)
next
  case (translated v)
  with assms(1-4) not_max show ?thesis by (simp add: total_tick)
qed (use assms(1) in simp)

end

end
