(* ===== verification/Ingress_Model.thy ===== *)
theory Ingress_Model
  imports Icmp_Map Verdicts
begin

text \<open>
  \<open>clat_ingress\<close> of \<open>bpf/clat.c\<close>: IPv6 to IPv4. The stages are the match of CLAT return
  traffic (\<open>ingress_match\<close>), the header fields with the fragment header
  (\<open>ingress_fields\<close>), the reshape into an IPv4 frame (\<open>ingress_reshape\<close>), and the
  transport stage by protocol, where an ICMPv6 error also has its quoted packet translated
  (\<open>ingress_error\<close> and the stages it is made of). \<open>ig\<close> holds the C locals that live
  across stages, \<open>quoted\<close> those of the quoted packet.
\<close>

section \<open>Matching and header fields\<close>

record ig =
  ig_saddr6 :: in6_addr
  ig_daddr6 :: in6_addr
  ig_src_mapped :: bool
  ig_tos :: u8
  ig_hop :: u8
  ig_nh :: u8
  ig_payload_len :: nat
  ig_id :: u16
  ig_frag4 :: u16
  ig_is_frag :: bool
  ig_first :: bool

text \<open>The errors of a router outside the prefix that quote a CLAT flow.\<close>

definition ingress_match_error :: "byte_order \<Rightarrow> kernel \<Rightarrow> rodata \<Rightarrow> world \<Rightarrow> world step" where
  "ingress_match_error e K R w =
     (let (lin, s) = ensure_linear K (w_skb w) (ETH_HLEN + IP6_HLEN + 8 + IP6_HLEN);
          w = w\<lparr>w_skb := s\<rparr>
      in if \<not> lin then Return TC_ACT_OK w
      else if ETH_HLEN + IP6_HLEN + 8 + IP6_HLEN > linear s then Return TC_ACT_OK w
      else case lin_read s (ETH_HLEN + IP6_HLEN) 8 of None \<Rightarrow> Fault | Some icmp6 \<Rightarrow>
      if icmp6 ! 0 < ICMPV6_DEST_UNREACH \<or> icmp6 ! 0 > ICMPV6_PARAMPROB then Return TC_ACT_OK w
      else case lin_read s (ETH_HLEN + IP6_HLEN + 8) IP6_HLEN of None \<Rightarrow> Fault | Some b \<Rightarrow>
      let in6 = ipv6hdr_of e b
      in if ip6_version e in6 \<noteq> 6 \<or> \<not> addr6_eq (ip6_saddr in6) (POD_IP6 R) \<or> \<not> in_prefix R (ip6_daddr in6)
      then Return TC_ACT_OK w
      else Next w)"

definition ingress_match :: "byte_order \<Rightarrow> kernel \<Rightarrow> rodata \<Rightarrow> world \<Rightarrow>
    ((in6_addr \<times> in6_addr \<times> bool) \<times> world) step" where
  "ingress_match e K R w =
     (if ETH_HLEN > linear (w_skb w) then Return TC_ACT_OK w
      else case lin_read (w_skb w) 12 2 of None \<Rightarrow> Fault | Some h_proto \<Rightarrow>
      if ld16 e (h_proto ! 0) (h_proto ! 1) \<noteq> bpf_htons e ETH_P_IPV6 then Return TC_ACT_OK w
      else let (lin, s) = ensure_linear K (w_skb w) (ETH_HLEN + IP6_HLEN + FRAG_HLEN);
               w = w\<lparr>w_skb := s\<rparr>
      in if \<not> lin then Return TC_ACT_OK w
      else if ETH_HLEN + IP6_HLEN > linear s then Return TC_ACT_OK w
      else case lin_read s ETH_HLEN IP6_HLEN of None \<Rightarrow> Fault | Some b \<Rightarrow>
      let ip6 = ipv6hdr_of e b
      in if ip6_version e ip6 \<noteq> 6 then Return TC_ACT_OK w
      else let saddr6 = ip6_saddr ip6; daddr6 = ip6_daddr ip6
      in if \<not> addr6_eq daddr6 (POD_IP6 R) then Return TC_ACT_OK w
      else let src_mapped = in_prefix R saddr6
      in if src_mapped then Next ((saddr6, daddr6, True), w)
      else if ip6_nexthdr ip6 \<noteq> IPPROTO_ICMPV6 then Return TC_ACT_OK w
      else bind_step (ingress_match_error e K R w) (\<lambda>w. Next ((saddr6, daddr6, False), w)))"

text \<open>A fragment header behind the IPv6 header.\<close>

definition ingress_fields :: "byte_order \<Rightarrow> kernel \<Rightarrow> (in6_addr \<times> in6_addr \<times> bool) \<Rightarrow> world \<Rightarrow> ig step" where
  "ingress_fields e K a w =
     (case a of (saddr6, daddr6, src_mapped) \<Rightarrow>
      case lin_read (w_skb w) ETH_HLEN IP6_HLEN of None \<Rightarrow> Fault | Some b \<Rightarrow>
      let ip6 = ipv6hdr_of e b;
          payload_len = unat (bpf_ntohs e (ip6_payload_len ip6));
          v = \<lparr>ig_saddr6 = saddr6, ig_daddr6 = daddr6, ig_src_mapped = src_mapped,
               ig_tos = ucast (drop_bit 20 (bpf_ntohl e (ip6_word0 ip6))), ig_hop = ip6_hop_limit ip6,
               ig_nh = ip6_nexthdr ip6, ig_payload_len = payload_len, ig_id = 0, ig_frag4 = IP_DF,
               ig_is_frag = False, ig_first = True\<rparr>
      in if ip6_nexthdr ip6 = IPPROTO_FRAGMENT then
           if ETH_HLEN + IP6_HLEN + FRAG_HLEN > linear (w_skb w) then DROP K CNT_INGRESS_DROP_TRUNCATED w
           else if payload_len < FRAG_HLEN then DROP K CNT_INGRESS_DROP_TRUNCATED w
           else case lin_read (w_skb w) (ETH_HLEN + IP6_HLEN) FRAG_HLEN of None \<Rightarrow> Fault | Some f \<Rightarrow>
           let fh = frag_hdr_of e f; fo = bpf_ntohs e (fh_frag_off fh)
           in Next (v\<lparr>ig_nh := fh_nexthdr fh,
                      ig_id := ucast (bpf_ntohl e (fh_identification fh)),
                      ig_frag4 := drop_bit 3 fo OR (if fo AND 1 \<noteq> 0 then IP_MF else 0),
                      ig_first := (drop_bit 3 fo = 0), ig_is_frag := True,
                      ig_payload_len := payload_len - FRAG_HLEN\<rparr>)
         else Next v)"

definition ingress_checks :: "kernel \<Rightarrow> ig \<Rightarrow> world \<Rightarrow> unit step" where
  "ingress_checks K v w =
     (if is_ext_hdr (ig_nh v) then DROP K CNT_INGRESS_DROP_EXTHDR w
      else if ig_nh v = IPPROTO_ICMPV6 \<and> ig_is_frag v then DROP K CNT_INGRESS_DROP_FRAG_ICMP w
      else Next ())"

definition ingress_parse :: "byte_order \<Rightarrow> kernel \<Rightarrow> rodata \<Rightarrow> world \<Rightarrow> (ig \<times> world) step" where
  "ingress_parse e K R w =
     bind_step (ingress_match e K R w) (\<lambda>(a, w).
     bind_step (ingress_fields e K a w) (\<lambda>v.
     bind_step (ingress_checks K v w) (\<lambda>_. Next (v, w))))"

section \<open>Reshape\<close>

text \<open>An IPv4 header with its checksum filled in.\<close>

definition h4_csum :: "byte_order \<Rightarrow> kernel \<Rightarrow> iphdr \<Rightarrow> iphdr" where
  "h4_csum e K h =
     (let h = h\<lparr>ip_check := 0\<rparr>
      in h\<lparr>ip_check := csum_fold (word_of_int (bpf_csum_diff K [] (iphdr_bytes e h) 0))\<rparr>)"

definition ingress_tot_len :: "ig \<Rightarrow> u16" where
  "ingress_tot_len v = word_of_nat (ig_payload_len v + IP4_HLEN)"

definition ingress_h4 :: "byte_order \<Rightarrow> kernel \<Rightarrow> rodata \<Rightarrow> ig \<Rightarrow> iphdr" where
  "ingress_h4 e K R v =
     h4_csum e K
       \<lparr>ip_version = 4, ip_ihl = 5, ip_tos = ig_tos v, ip_tot_len = bpf_htons e (ingress_tot_len v),
        ip_id = bpf_htons e (ig_id v), ip_frag_off = bpf_htons e (ig_frag4 v), ip_ttl = ig_hop v,
        ip_protocol = (if ig_nh v = IPPROTO_ICMPV6 then IPPROTO_ICMP else ig_nh v), ip_check = 0,
        ip_saddr = (if ig_src_mapped v then u6_addr32_3 (ig_saddr6 v) else ERR_IP4 R),
        ip_daddr = POD_IP4 R\<rparr>"

definition ingress_reshape :: "byte_order \<Rightarrow> kernel \<Rightarrow> rodata \<Rightarrow> ig \<Rightarrow> world \<Rightarrow> world step" where
  "ingress_reshape e K R v w =
     (let (rc, s) = (if ig_is_frag v
                     then bpf_skb_adjust_room K (w_skb w) (- int FRAG_HLEN) BPF_ADJ_ROOM_NET ROOM_FLAGS
                     else (0, w_skb w));
          w = w\<lparr>w_skb := s\<rparr>
      in if rc < 0 then DROP K CNT_INGRESS_DROP_HELPER w
      else let (rc, s) = bpf_skb_change_proto K (w_skb w) (bpf_htons e ETH_P_IP) 0;
               w = w\<lparr>w_skb := s\<rparr>
      in if rc < 0 then DROP K CNT_INGRESS_DROP_HELPER w
      else let (rc, s) = bpf_skb_store_bytes K (w_skb w) ETH_HLEN (iphdr_bytes e (ingress_h4 e K R v)) STORE_FLAGS;
               w = w\<lparr>w_skb := s\<rparr>
      in if rc < 0 then DROP K CNT_INGRESS_DROP_HELPER w
      else let (rc, s) = bpf_skb_store_bytes K (w_skb w) 12 (st16 e (bpf_htons e ETH_P_IP)) 0;
               w = w\<lparr>w_skb := s\<rparr>
      in if rc < 0 then DROP K CNT_INGRESS_DROP_HELPER w
      else Next w)"

section \<open>TCP, UDP and echo\<close>

definition ingress_done :: "kernel \<Rightarrow> world \<Rightarrow> unit step" where
  "ingress_done K w = Return TC_ACT_OK (count K CNT_INGRESS_TRANSLATED w)"

definition ingress_diff :: "byte_order \<Rightarrow> kernel \<Rightarrow> rodata \<Rightarrow> ig \<Rightarrow> u32" where
  "ingress_diff e K R v =
     word_of_int (bpf_csum_diff K
       (in6_bytes e (prefix_copy (ig_saddr6 v)) @ in6_bytes e (prefix_copy (ig_daddr6 v)))
       (st32 e (ip_saddr (ingress_h4 e K R v)) @ st32 e (ip_daddr (ingress_h4 e K R v))) 0)"

definition ingress_csum_replace :: "kernel \<Rightarrow> nat \<Rightarrow> u32 \<Rightarrow> u64 \<Rightarrow> world \<Rightarrow> unit step" where
  "ingress_csum_replace K off diff flags w =
     (let (rc, s) = bpf_l4_csum_replace K (w_skb w) off 0 (ucast diff) flags;
          w = w\<lparr>w_skb := s\<rparr>
      in if rc < 0 then DROP K CNT_INGRESS_DROP_HELPER w else ingress_done K w)"

definition ingress_udp :: "byte_order \<Rightarrow> kernel \<Rightarrow> nat \<Rightarrow> u32 \<Rightarrow> world \<Rightarrow> unit step" where
  "ingress_udp e K l4off diff w =
     (let (rc, b) = bpf_skb_load_bytes K (w_skb w) (l4off + 6) 2
      in if rc < 0 then DROP K CNT_INGRESS_DROP_TRUNCATED w
      else if ld16 e (b ! 0) (b ! 1) = 0 then DROP K CNT_INGRESS_DROP_UDP_ZERO_CSUM w
      else ingress_csum_replace K (l4off + 6) diff (BPF_F_PSEUDO_HDR OR BPF_F_MARK_MANGLED_0) w)"

definition pseudo6_of :: "byte_order \<Rightarrow> in6_addr \<Rightarrow> in6_addr \<Rightarrow> nat \<Rightarrow> pseudo6" where
  "pseudo6_of e saddr daddr len =
     \<lparr>p6_saddr = prefix_copy saddr, p6_daddr = prefix_copy daddr,
      p6_len = bpf_htonl e (word_of_nat len), p6_nexthdr = bpf_htonl e (ucast IPPROTO_ICMPV6)\<rparr>"

definition type_word :: "byte_order \<Rightarrow> u8 \<Rightarrow> u8 \<Rightarrow> u32" where
  "type_word e t code = bpf_htonl e (push_bit 24 (ucast t) OR push_bit 16 (ucast code))"

definition ingress_echo :: "byte_order \<Rightarrow> kernel \<Rightarrow> nat \<Rightarrow> bytes \<Rightarrow> u32 \<Rightarrow> world \<Rightarrow> unit step" where
  "ingress_echo e K l4off hdr diff w =
     (let t4 = (if hdr ! 0 = ICMPV6_ECHO_REPLY then ICMP_ECHOREPLY else ICMP_ECHO);
          diff = word_of_int (bpf_csum_diff K (st32 e (type_word e (hdr ! 0) (hdr ! 1)))
                   (st32 e (type_word e t4 (hdr ! 1))) diff);
          (rc, s) = bpf_skb_store_bytes K (w_skb w) l4off [t4] STORE_FLAGS;
          w = w\<lparr>w_skb := s\<rparr>
      in if rc < 0 then DROP K CNT_INGRESS_DROP_HELPER w
         else ingress_csum_replace K (l4off + 2) diff BPF_F_PSEUDO_HDR w)"

section \<open>Errors and the packets they quote\<close>

record quoted =
  q_in6 :: ipv6hdr
  q_old :: bytes
  q_nh :: u8
  q_id :: u16
  q_frag4 :: u16
  q_frag :: bool

text \<open>Read the quoted headers; \<open>q_old\<close> are their bytes.\<close>

definition ingress_quoted :: "byte_order \<Rightarrow> kernel \<Rightarrow> rodata \<Rightarrow> nat \<Rightarrow> world \<Rightarrow> quoted step" where
  "ingress_quoted e K R l4off w =
     (let (rc, b) = bpf_skb_load_bytes K (w_skb w) (l4off + 8) IP6_HLEN
      in if rc < 0 then DROP K CNT_INGRESS_DROP_ICMP_INNER w
      else let in6 = ipv6hdr_of e b
      in if ip6_version e in6 \<noteq> 6 \<or> \<not> addr6_eq (ip6_saddr in6) (POD_IP6 R) \<or> \<not> in_prefix R (ip6_daddr in6)
      then DROP K CNT_INGRESS_DROP_ICMP_INNER w
      else let q = \<lparr>q_in6 = in6, q_old = b, q_nh = ip6_nexthdr in6, q_id = 0, q_frag4 = IP_DF, q_frag = False\<rparr>
      in bind_step
           (if ip6_nexthdr in6 = IPPROTO_FRAGMENT then
              let (rc, f) = bpf_skb_load_bytes K (w_skb w) (l4off + 8 + IP6_HLEN) FRAG_HLEN
              in if rc < 0 then DROP K CNT_INGRESS_DROP_ICMP_INNER w
              else let infh = frag_hdr_of e f; fo = bpf_ntohs e (fh_frag_off infh)
              in Next (q\<lparr>q_old := b @ f, q_nh := fh_nexthdr infh,
                         q_id := ucast (bpf_ntohl e (fh_identification infh)),
                         q_frag4 := drop_bit 3 fo OR (if fo AND 1 \<noteq> 0 then IP_MF else 0),
                         q_frag := True\<rparr>)
            else Next q)
           (\<lambda>q. if is_ext_hdr (q_nh q) then DROP K CNT_INGRESS_DROP_ICMP_INNER w else Next q))"

text \<open>The next-hop MTU of a Packet Too Big, for the smaller IPv4 headers.\<close>

definition frag_mtu :: "bool \<Rightarrow> u32 \<Rightarrow> u32" where
  "frag_mtu in_frag mtu =
     (let hdrdiff = 40 - 20 + (if in_frag then 8 else 0);
          mtu = (if mtu > 0xffff then 0xffff else mtu)
      in if mtu > hdrdiff + 68 then mtu - hdrdiff else 68)"

definition hdr_word :: "byte_order \<Rightarrow> bytes \<Rightarrow> u32" where
  "hdr_word e hdr = bpf_ntohl e (ld32 e (hdr ! 4) (hdr ! 5) (hdr ! 6) (hdr ! 7))"

definition error_icmp4 :: "byte_order \<Rightarrow> bytes \<Rightarrow> icmp_map \<Rightarrow> u32 \<Rightarrow> quoted \<Rightarrow> icmphdr" where
  "error_icmp4 e hdr m pointer4 q =
     \<lparr>icmp_type = m_type m, icmp_code = m_code m, icmp_checksum = 0,
      icmp_rest =
        (if hdr ! 0 = ICMPV6_PKT_TOOBIG
         then Frag 0 (bpf_htons e (ucast (frag_mtu (q_frag q) (hdr_word e hdr))))
         else if m_type m = ICMP_PARAMETERPROB then Gateway (bpf_htonl e (push_bit 24 pointer4))
         else Gateway 0)\<rparr>"

definition quoted_in4 :: "byte_order \<Rightarrow> kernel \<Rightarrow> rodata \<Rightarrow> quoted \<Rightarrow> iphdr" where
  "quoted_in4 e K R q =
     h4_csum e K
       \<lparr>ip_version = 4, ip_ihl = 5,
        ip_tos = ucast (drop_bit 20 (bpf_ntohl e (ip6_word0 (q_in6 q)))),
        ip_tot_len = bpf_htons e (bpf_ntohs e (ip6_payload_len (q_in6 q)) + 20 - (if q_frag q then 8 else 0)),
        ip_id = bpf_htons e (q_id q), ip_frag_off = bpf_htons e (q_frag4 q), ip_ttl = ip6_hop_limit (q_in6 q),
        ip_protocol = (if q_nh q = IPPROTO_ICMPV6 then IPPROTO_ICMP else q_nh q), ip_check = 0,
        ip_saddr = POD_IP4 R, ip_daddr = u6_addr32_3 (ip6_daddr (q_in6 q))\<rparr>"

definition error_new :: "byte_order \<Rightarrow> kernel \<Rightarrow> rodata \<Rightarrow> bytes \<Rightarrow> icmp_map \<Rightarrow> u32 \<Rightarrow> quoted \<Rightarrow> bytes" where
  "error_new e K R hdr m pointer4 q =
     icmphdr_bytes e (error_icmp4 e hdr m pointer4 q) @ iphdr_bytes e (quoted_in4 e K R q)"

text \<open>How many bytes the headers lose: \<open>sizeof(old) - sizeof(new)\<close>.\<close>

definition error_cut :: "quoted \<Rightarrow> nat" where
  "error_cut q = (if q_frag q then 56 - 28 else 56 - 8 - 28)"

text \<open>Cut the room, write the new headers and fix the outer one.\<close>

definition ingress_shrink :: "byte_order \<Rightarrow> kernel \<Rightarrow> rodata \<Rightarrow> ig \<Rightarrow> nat \<Rightarrow> bytes \<Rightarrow> nat \<Rightarrow> world \<Rightarrow> world step" where
  "ingress_shrink e K R v l4off new n w =
     (let (rc, s) = bpf_skb_adjust_room K (w_skb w) (- int n) BPF_ADJ_ROOM_NET ROOM_FLAGS;
          w = w\<lparr>w_skb := s\<rparr>
      in if rc < 0 then DROP K CNT_INGRESS_DROP_HELPER w
      else let (rc, s) = bpf_skb_store_bytes K (w_skb w) l4off new STORE_FLAGS;
               w = w\<lparr>w_skb := s\<rparr>
      in if rc < 0 then DROP K CNT_INGRESS_DROP_HELPER w
      else let h4 = h4_csum e K ((ingress_h4 e K R v)\<lparr>ip_tot_len := bpf_htons e (ingress_tot_len v - word_of_nat n)\<rparr>);
               (rc, s) = bpf_skb_store_bytes K (w_skb w) ETH_HLEN (iphdr_bytes e h4) STORE_FLAGS;
               w = w\<lparr>w_skb := s\<rparr>
      in if rc < 0 then DROP K CNT_INGRESS_DROP_HELPER w
      else Next w)"

text \<open>
  The checksum field \<open>oc\<close> of the quoted packet after a change of \<open>diff\<close>: \<open>diff\<close> and the
  complement of the field are added in 32 bits.
\<close>

definition quoted_csum :: "u32 \<Rightarrow> u16 \<Rightarrow> u16" where
  "quoted_csum diff oc = csum_fold (diff + ucast (NOT oc))"

definition csum_diff16 :: "byte_order \<Rightarrow> kernel \<Rightarrow> u16 \<Rightarrow> u16 \<Rightarrow> u32 \<Rightarrow> u32" where
  "csum_diff16 e K oc nc d =
     word_of_int (bpf_csum_diff K (st32 e (word16 e oc)) (st32 e (word16 e nc)) d)"

text \<open>A quoted echo message; the result is the running difference \<open>d\<close>.\<close>

definition ingress_quoted_echo :: "byte_order \<Rightarrow> kernel \<Rightarrow> quoted \<Rightarrow> nat \<Rightarrow> u32 \<Rightarrow> world \<Rightarrow> (u32 \<times> world) step" where
  "ingress_quoted_echo e K q l4 d w =
     (let (rc, it) = bpf_skb_load_bytes K (w_skb w) l4 2
      in if rc < 0 then DROP K CNT_INGRESS_DROP_ICMP_INNER w
      else if it ! 0 = ICMPV6_ECHO_REQUEST \<or> it ! 0 = ICMPV6_ECHO_REPLY then
        let nt = (if it ! 0 = ICMPV6_ECHO_REQUEST then ICMP_ECHO else ICMP_ECHOREPLY);
            ip6 = pseudo6_of e (ip6_saddr (q_in6 q)) (ip6_daddr (q_in6 q)) (unat (bpf_ntohs e (ip6_payload_len (q_in6 q))));
            idiff = word_of_int (bpf_csum_diff K (pseudo6_bytes e ip6) [] 0);
            ow = st32 e (type_word e (it ! 0) (it ! 1));
            nw = st32 e (type_word e nt (it ! 1));
            idiff = word_of_int (bpf_csum_diff K ow nw idiff);
            (rc, ob) = bpf_skb_load_bytes K (w_skb w) (l4 + 2) 2
        in if rc < 0 then DROP K CNT_INGRESS_DROP_ICMP_INNER w
        else let oc = ld16 e (ob ! 0) (ob ! 1);
                 nc = quoted_csum idiff oc;
                 (rc, s) = bpf_skb_store_bytes K (w_skb w) l4 [nt] STORE_FLAGS;
                 w = w\<lparr>w_skb := s\<rparr>
        in if rc < 0 then DROP K CNT_INGRESS_DROP_HELPER w
        else let (rc, s) = bpf_skb_store_bytes K (w_skb w) (l4 + 2) (st16 e nc) STORE_FLAGS;
                 w = w\<lparr>w_skb := s\<rparr>
        in if rc < 0 then DROP K CNT_INGRESS_DROP_HELPER w
        else let d = word_of_int (bpf_csum_diff K ow nw d)
        in Next (csum_diff16 e K oc nc d, w)
      else Next (d, w))"

text \<open>The checksum of a quoted TCP or UDP header, when it is there.\<close>

definition ingress_quoted_l4 :: "byte_order \<Rightarrow> kernel \<Rightarrow> rodata \<Rightarrow> quoted \<Rightarrow> nat \<Rightarrow> u32 \<Rightarrow> world \<Rightarrow> (u32 \<times> world) step" where
  "ingress_quoted_l4 e K R q l4 d w =
     (let in4 = quoted_in4 e K R q;
          id6 = word_of_int (bpf_csum_diff K
                  (in6_bytes e (prefix_copy (ip6_saddr (q_in6 q))) @ in6_bytes e (prefix_copy (ip6_daddr (q_in6 q))))
                  (st32 e (ip_saddr in4) @ st32 e (ip_daddr in4)) 0);
          coff = (if q_nh q = IPPROTO_UDP then 6 else if q_nh q = IPPROTO_TCP then 16 else 0)
      in bind_step
           (if q_nh q = IPPROTO_ICMPV6 \<and> \<not> q_frag q then ingress_quoted_echo e K q l4 d w else Next (d, w))
           (\<lambda>(d, w).
              if coff \<noteq> 0 \<and> q_frag4 q AND IP_OFFSET = 0 then
                let (rc, ob) = bpf_skb_load_bytes K (w_skb w) (l4 + coff) 2;
                    oc = ld16 e (ob ! 0) (ob ! 1)
                in if rc = 0 \<and> oc \<noteq> 0 then
                     let nc = quoted_csum id6 oc;
                         (rc, s) = bpf_skb_store_bytes K (w_skb w) (l4 + coff) (st16 e nc) STORE_FLAGS;
                         w = w\<lparr>w_skb := s\<rparr>
                     in if rc < 0 then DROP K CNT_INGRESS_DROP_HELPER w
                        else Next (csum_diff16 e K oc nc d, w)
                   else Next (d, w)
              else Next (d, w)))"

definition ingress_error :: "byte_order \<Rightarrow> kernel \<Rightarrow> rodata \<Rightarrow> ig \<Rightarrow> nat \<Rightarrow> bytes \<Rightarrow> u32 \<Rightarrow> world \<Rightarrow> unit step" where
  "ingress_error e K R v l4off hdr diff w =
     (let (m, pointer4) = icmp6_to_icmp4 (hdr ! 0) (hdr ! 1) (hdr_word e hdr) 0
      in if \<not> m_ok m then DROP K CNT_INGRESS_DROP_ICMP_UNSUPPORTED w
      else bind_step (ingress_quoted e K R l4off w) (\<lambda>q.
           let new = error_new e K R hdr m pointer4 q;
               d = word_of_int (bpf_csum_diff K (hdr @ q_old q) new diff)
           in bind_step (ingress_shrink e K R v l4off new (error_cut q) w) (\<lambda>w.
              bind_step (ingress_quoted_l4 e K R q (l4off + 28) d w) (\<lambda>(d, w).
              ingress_csum_replace K (l4off + 2) d BPF_F_PSEUDO_HDR w))))"

section \<open>The program\<close>

definition ingress_icmp :: "byte_order \<Rightarrow> kernel \<Rightarrow> rodata \<Rightarrow> ig \<Rightarrow> nat \<Rightarrow> world \<Rightarrow> unit step" where
  "ingress_icmp e K R v l4off w =
     (let (rc, hdr) = bpf_skb_load_bytes K (w_skb w) l4off 8
      in if rc < 0 then DROP K CNT_INGRESS_DROP_TRUNCATED w
      else let p6 = pseudo6_of e (ig_saddr6 v) (ig_daddr6 v) (ig_payload_len v);
               diff = word_of_int (bpf_csum_diff K (pseudo6_bytes e p6) [] 0)
      in if hdr ! 0 = ICMPV6_ECHO_REPLY \<or> hdr ! 0 = ICMPV6_ECHO_REQUEST
         then ingress_echo e K l4off hdr diff w
         else ingress_error e K R v l4off hdr diff w)"

definition ingress_l4 :: "byte_order \<Rightarrow> kernel \<Rightarrow> rodata \<Rightarrow> ig \<Rightarrow> nat \<Rightarrow> world \<Rightarrow> unit step" where
  "ingress_l4 e K R v l4off w =
     (if \<not> ig_first v then ingress_done K w
      else let diff = ingress_diff e K R v
      in if ig_nh v = IPPROTO_TCP then ingress_csum_replace K (l4off + 16) diff BPF_F_PSEUDO_HDR w
      else if ig_nh v = IPPROTO_UDP then ingress_udp e K l4off diff w
      else if ig_nh v = IPPROTO_ICMPV6 then ingress_icmp e K R v l4off w
      else ingress_done K w)"

definition clat_ingress :: "byte_order \<Rightarrow> kernel \<Rightarrow> rodata \<Rightarrow> world \<Rightarrow> unit step" where
  "clat_ingress e K R w =
     bind_step (ingress_parse e K R w) (\<lambda>(v, w).
     bind_step (ingress_reshape e K R v w) (\<lambda>w.
     ingress_l4 e K R v (ETH_HLEN + IP4_HLEN) w))"

end
