(* ===== verification/Ingress.thy ===== *)
theory Ingress
  imports Ingress_Model
begin

text \<open>
  How a run of \<open>clat_ingress\<close> ends: it always returns a verdict, without a direct access
  outside the linear part of the buffer, and its counters account for the verdict.
\<close>

section \<open>Verdicts and counters\<close>

definition ingress_drops :: "clat_counter set" where
  "ingress_drops =
     {CNT_INGRESS_DROP_TRUNCATED, CNT_INGRESS_DROP_EXTHDR, CNT_INGRESS_DROP_UDP_ZERO_CSUM,
      CNT_INGRESS_DROP_FRAG_ICMP, CNT_INGRESS_DROP_ICMP_UNSUPPORTED, CNT_INGRESS_DROP_ICMP_INNER,
      CNT_INGRESS_DROP_HELPER}"

lemma ingress_drops_mem [simp]:
  "CNT_INGRESS_DROP_TRUNCATED \<in> ingress_drops" "CNT_INGRESS_DROP_EXTHDR \<in> ingress_drops"
  "CNT_INGRESS_DROP_UDP_ZERO_CSUM \<in> ingress_drops" "CNT_INGRESS_DROP_FRAG_ICMP \<in> ingress_drops"
  "CNT_INGRESS_DROP_ICMP_UNSUPPORTED \<in> ingress_drops" "CNT_INGRESS_DROP_ICMP_INNER \<in> ingress_drops"
  "CNT_INGRESS_DROP_HELPER \<in> ingress_drops"
  by (simp_all add: ingress_drops_def)

abbreviation ingress_outcome :: "world \<Rightarrow> 'a step \<Rightarrow> bool" where
  "ingress_outcome \<equiv> outcome CNT_INGRESS_TRANSLATED ingress_drops"

lemma ingress_match_error_counters:
  "ingress_match_error e K R w = Next w' \<Longrightarrow> clat_counters w' = clat_counters w"
  by (auto simp: ingress_match_error_def Let_def split: if_splits option.splits prod.splits)

lemma ingress_match_counters:
  "ingress_match e K R w = Next (a, w') \<Longrightarrow> clat_counters w' = clat_counters w"
  by (auto simp: ingress_match_def bind_step_def Let_def dest: ingress_match_error_counters
      split: if_splits option.splits prod.splits step.splits)

lemma ingress_parse_counters:
  "ingress_parse e K R w = Next (v, w') \<Longrightarrow> clat_counters w' = clat_counters w"
  by (auto simp: ingress_parse_def bind_step_def dest: ingress_match_counters
      split: step.splits prod.splits)

lemma ingress_reshape_counters:
  "ingress_reshape e K R v w = Next w' \<Longrightarrow> clat_counters w' = clat_counters w"
  by (auto simp: ingress_reshape_def DROP_def Let_def split: if_splits prod.splits)

lemma ingress_shrink_counters:
  "ingress_shrink e K R v l4off new n w = Next w' \<Longrightarrow> clat_counters w' = clat_counters w"
  by (auto simp: ingress_shrink_def DROP_def Let_def split: if_splits prod.splits)

lemma ingress_quoted_echo_counters:
  "ingress_quoted_echo e K q l4 d w = Next (d', w') \<Longrightarrow> clat_counters w' = clat_counters w"
  by (auto simp: ingress_quoted_echo_def DROP_def Let_def split: if_splits prod.splits)

lemma ingress_quoted_l4_counters:
  "ingress_quoted_l4 e K R q l4 d w = Next (d', w') \<Longrightarrow> clat_counters w' = clat_counters w"
  by (auto simp: ingress_quoted_l4_def bind_step_def DROP_def Let_def dest: ingress_quoted_echo_counters
      split: if_splits prod.splits step.splits)

section \<open>Direct packet access\<close>

lemma ingress_match_error_no_fault: "ingress_match_error e K R w \<noteq> Fault"
  by (auto simp: ingress_match_error_def lin_read_def Let_def split: if_splits option.splits prod.splits)

lemma ingress_match_no_fault: "ingress_match e K R w \<noteq> Fault"
  using ingress_match_error_no_fault
  by (auto simp: ingress_match_def lin_read_def Let_def bind_step_Fault split: if_splits option.splits prod.splits)

text \<open>What the match leaves in reach of direct access.\<close>

lemma ingress_match_linear:
  assumes "ingress_match e K R w = Next (a, w')"
  shows "54 \<le> linear (w_skb w')"
proof -
  have "54 \<le> linear (w_skb w')" if "ingress_match_error e K R u = Next w'" for u
    using that by (auto simp: ingress_match_error_def Let_def split: if_splits option.splits prod.splits)
  with assms show ?thesis
    by (auto simp: ingress_match_def bind_step_def Let_def split: if_splits option.splits prod.splits step.splits)
qed

lemma ingress_fields_no_fault: "54 \<le> linear (w_skb w) \<Longrightarrow> ingress_fields e K a w \<noteq> Fault"
  by (auto simp: ingress_fields_def lin_read_def DROP_def Let_def split: if_splits option.splits prod.splits)

lemma ingress_parse_no_fault: "ingress_parse e K R w \<noteq> Fault"
  using ingress_match_no_fault ingress_fields_no_fault
  by (auto simp: ingress_parse_def bind_step_Fault ingress_checks_def DROP_def dest: ingress_match_linear
      split: if_splits)

lemma ingress_error_returns: "\<exists>a w'. ingress_error e K R v l4off hdr diff w = Return a w'"
proof -
  have q: "ingress_quoted e K R l4off w \<noteq> Fault"
    by (auto simp: ingress_quoted_def bind_step_def DROP_def Let_def split: if_splits prod.splits step.splits)
  have s: "ingress_shrink e K R v l4off new n w \<noteq> Fault" for new n w
    by (auto simp: ingress_shrink_def DROP_def Let_def split: prod.splits)
  have qe: "ingress_quoted_echo e K qq l4 d w \<noteq> Fault" for qq l4 d w
    by (auto simp: ingress_quoted_echo_def DROP_def Let_def split: prod.splits)
  have ql: "ingress_quoted_l4 e K R qq l4 d w \<noteq> Fault" for qq l4 d w
    using qe by (auto simp: ingress_quoted_l4_def bind_step_Fault DROP_def Let_def split: prod.splits if_splits)
  have c: "\<exists>a w'. ingress_csum_replace K off d fl w = Return a w'" for off d fl w
    by (auto simp: ingress_csum_replace_def ingress_done_def DROP_def Let_def split: prod.splits)
  show ?thesis
    using q s ql c
    by (auto simp: ingress_error_def bind_step_def DROP_def Let_def split: prod.splits step.splits)
qed

lemma ingress_l4_returns: "\<exists>a w'. ingress_l4 e K R v l4off w = Return a w'"
  using ingress_error_returns
  by (auto simp: ingress_l4_def ingress_udp_def ingress_icmp_def ingress_echo_def ingress_csum_replace_def
      ingress_done_def DROP_def Let_def split: prod.splits)

lemma clat_ingress_returns: "\<exists>a w'. clat_ingress e K R w = Return a w'"
proof -
  have "ingress_reshape e K R v u \<noteq> Fault" for v u
    by (auto simp: ingress_reshape_def DROP_def Let_def split: prod.splits)
  then show ?thesis
    unfolding clat_ingress_def
    using ingress_parse_no_fault [of e K R w] ingress_l4_returns [of e K R]
    by (auto simp: bind_step_def split: step.splits prod.splits)
qed

section \<open>Accounting\<close>

lemma outcome_passed:
  "clat_counters v = clat_counters w \<Longrightarrow> pkt (w_skb v) = pkt (w_skb w) \<Longrightarrow>
   outcome tr drops w (Return TC_ACT_OK v)"
  by (simp add: outcome_def)

context bpf_kernel
begin

lemma ensure_linear_pkt [simp]: "pkt (snd (ensure_linear K s n)) = pkt s"
  using ensure_linear_frame [of s n "fst (ensure_linear K s n)" "snd (ensure_linear K s n)"] by simp

lemma ingress_match_error_outcome:
  assumes "clat_counters u = clat_counters w" and "pkt (w_skb u) = pkt (w_skb w)"
  shows "ingress_outcome w (ingress_match_error e K R u)"
  unfolding ingress_match_error_def Let_def case_prod_beta
  by (intro outcome_If outcome_option outcome_passed outcome_Next) (simp_all add: assms lin_read_def)

lemma ingress_match_outcome: "ingress_outcome w (ingress_match e K R w)"
  unfolding ingress_match_def Let_def case_prod_beta
  by (intro outcome_If outcome_option outcome_passed outcome_Next bind_step_outcome ingress_match_error_outcome)
    (simp_all add: lin_read_def)

lemma ingress_parse_outcome:
  assumes "counters_ok w"
  shows "ingress_outcome w (ingress_parse e K R w)"
proof -
  have f: "ingress_outcome w (ingress_fields e K a u)"
    if "clat_counters u = clat_counters w" "54 \<le> linear (w_skb u)" for a u
    using that assms unfolding ingress_fields_def Let_def case_prod_beta
    by (intro outcome_If outcome_option DROP_outcome outcome_Next) (simp_all add: lin_read_def)
  have c: "ingress_outcome w (ingress_checks K v u)" if "clat_counters u = clat_counters w" for v u
    using that assms unfolding ingress_checks_def
    by (intro outcome_If DROP_outcome outcome_Next) simp_all
  show ?thesis
    unfolding ingress_parse_def case_prod_beta
    by (intro bind_step_outcome ingress_match_outcome f c outcome_Next)
      (auto dest: ingress_match_counters ingress_match_linear)
qed

lemma ingress_reshape_outcome:
  assumes "counters_ok w" and "clat_counters u = clat_counters w"
  shows "ingress_outcome w (ingress_reshape e K R v u)"
  unfolding ingress_reshape_def Let_def case_prod_beta
  by (intro outcome_If DROP_outcome outcome_Next) (simp_all add: assms)

lemma ingress_csum_replace_outcome:
  assumes "counters_ok w" and "clat_counters u = clat_counters w"
  shows "ingress_outcome w (ingress_csum_replace K off diff flags u)"
  unfolding ingress_csum_replace_def ingress_done_def Let_def case_prod_beta
  by (intro outcome_If DROP_outcome done_outcome) (simp_all add: assms)

lemma ingress_quoted_outcome:
  assumes "counters_ok w" and "clat_counters u = clat_counters w"
  shows "ingress_outcome w (ingress_quoted e K R l4off u)"
  unfolding ingress_quoted_def Let_def case_prod_beta
  by (intro outcome_If bind_step_outcome DROP_outcome outcome_Next) (simp_all add: assms)

lemma ingress_shrink_outcome:
  assumes "counters_ok w" and "clat_counters u = clat_counters w"
  shows "ingress_outcome w (ingress_shrink e K R v l4off new n u)"
  unfolding ingress_shrink_def Let_def case_prod_beta
  by (intro outcome_If DROP_outcome outcome_Next) (simp_all add: assms)

lemma ingress_quoted_echo_outcome:
  assumes "counters_ok w" and "clat_counters u = clat_counters w"
  shows "ingress_outcome w (ingress_quoted_echo e K q l4 d u)"
  unfolding ingress_quoted_echo_def Let_def case_prod_beta
  by (intro outcome_If DROP_outcome outcome_Next) (simp_all add: assms)

lemma ingress_quoted_l4_outcome:
  assumes "counters_ok w" and "clat_counters u = clat_counters w"
  shows "ingress_outcome w (ingress_quoted_l4 e K R q l4 d u)"
  unfolding ingress_quoted_l4_def Let_def case_prod_beta
  by (intro outcome_If bind_step_outcome ingress_quoted_echo_outcome DROP_outcome outcome_Next)
    (use assms in \<open>auto split: if_splits dest: ingress_quoted_echo_counters\<close>)

lemma ingress_error_outcome:
  assumes "counters_ok w" and "clat_counters u = clat_counters w"
  shows "ingress_outcome w (ingress_error e K R v l4off hdr diff u)"
  unfolding ingress_error_def Let_def case_prod_beta
  by (intro outcome_If DROP_outcome bind_step_outcome ingress_quoted_outcome ingress_shrink_outcome
      ingress_quoted_l4_outcome ingress_csum_replace_outcome)
    (use assms in \<open>auto dest!: ingress_shrink_counters ingress_quoted_l4_counters\<close>)

lemma ingress_l4_outcome:
  assumes "counters_ok w" and "clat_counters u = clat_counters w"
  shows "ingress_outcome w (ingress_l4 e K R v l4off u)"
  unfolding ingress_l4_def ingress_udp_def ingress_icmp_def ingress_echo_def ingress_done_def Let_def case_prod_beta
  by (intro outcome_If DROP_outcome done_outcome ingress_csum_replace_outcome ingress_error_outcome)
    (simp_all add: assms)

lemma clat_ingress_outcome:
  assumes "counters_ok w"
  shows "ingress_outcome w (clat_ingress e K R w)"
  unfolding clat_ingress_def case_prod_beta
  by (intro bind_step_outcome ingress_parse_outcome ingress_reshape_outcome ingress_l4_outcome)
    (use assms in \<open>auto dest!: ingress_parse_counters ingress_reshape_counters\<close>)

end

sublocale bpf_kernel < ingress_prog:
  tc_program "clat_ingress e K R" CNT_INGRESS_TRANSLATED ingress_drops for R
proof unfold_locales
  show "finite ingress_drops" "CNT_INGRESS_TRANSLATED \<notin> ingress_drops"
    "CNT_INGRESS_TRANSLATED \<noteq> CNT_MAX" "CNT_MAX \<notin> ingress_drops"
    by (simp_all add: ingress_drops_def)
qed (simp_all add: clat_ingress_returns clat_ingress_outcome)

context bpf_kernel
begin

lemmas ingress_run_total = ingress_prog.run_total

lemmas ingress_run_other = ingress_prog.run_other

end

section \<open>Properties\<close>

text \<open>
  (C24) For every kernel, packet and configuration \<open>clat_ingress\<close> returns a
  verdict: no direct packet access of it leaves \<open>data .. data_end\<close>, also after the buffer
  has been pulled a second time, and no stage gets stuck.
\<close>

theorem ingress_returns: "\<exists>a w'. clat_ingress e K R w = Return a w'"
  by (rule clat_ingress_returns)

text \<open>
  (C22) Whatever helpers fail, a packet \<open>clat_ingress\<close> drops counts one drop
  reason of the ingress side, a packet it translates counts one translation, and any other
  packet leaves with its bytes and every counter unchanged.
\<close>

theorem ingress_accounts:
  assumes "bpf_kernel e K" and "counters_ok w"
  shows "outcome CNT_INGRESS_TRANSLATED ingress_drops w (clat_ingress e K R w)"
  by (rule bpf_kernel.clat_ingress_outcome [OF assms])

definition idle6_world :: world where
  "idle6_world = \<lparr>w_skb = \<lparr>pkt = replicate 62 0, linear = 14, protocol = ETH_P_IPV6, ip_summed = CHECKSUM_NONE\<rparr>,
                  clat_counters = counters_init\<rparr>"

definition idle_pod :: rodata where
  "idle_pod = \<lparr>CLAT_PREFIX = in6_of LITTLE_ENDIAN (replicate 16 0), POD_IP6 = in6_of LITTLE_ENDIAN (replicate 16 1),
               POD_IP4 = 2, ERR_IP4 = 3\<rparr>"

theorem ingress_accounts_witness:
  "outcome CNT_INGRESS_TRANSLATED ingress_drops idle6_world
     (clat_ingress LITTLE_ENDIAN (ref_kernel LITTLE_ENDIAN) idle_pod idle6_world)"
  by (rule ingress_accounts [OF ref.bpf_kernel_axioms]) (simp add: idle6_world_def counters_init_def)

end
