(* ===== verification/Source_Route.thy ===== *)
theory Source_Route
  imports Clat_Base
begin

text \<open>
  The walk over IPv4 options that looks for a source route
  (\<open>ip4_has_source_route\<close> of \<open>bpf/clat.c\<close>). The C loop makes at most 40 iterations,
  which is the parameter \<open>k\<close> of the loop below; every iteration that goes on advances by
  at least one byte and the area has at most 40, so the bound is never what ends the walk
  (\<open>src_route_loop_eq\<close>). The reference \<open>option_types\<close> reads an option list as RFC 791
  has it and is undefined on a malformed one.
\<close>

section \<open>The program\<close>

fun src_route_loop :: "kernel \<Rightarrow> skb \<Rightarrow> nat \<Rightarrow> nat \<Rightarrow> nat \<Rightarrow> nat \<Rightarrow> bool" where
  "src_route_loop K s optoff optlen 0 i = False"
| "src_route_loop K s optoff optlen (Suc k) i =
     (if i \<ge> optlen then False
      else let (rc, t) = bpf_skb_load_bytes K s (optoff + i) 1
      in if rc < 0 then True
      else if t ! 0 = 0 then False
      else if t ! 0 = 1 then src_route_loop K s optoff optlen k (i + 1)
      else if t ! 0 = IPOPT_LSRR_T \<or> t ! 0 = IPOPT_SSRR_T then True
      else if i + 1 \<ge> optlen then True
      else let (rc, l) = bpf_skb_load_bytes K s (optoff + i + 1) 1
      in if rc < 0 then True
      else if l ! 0 < 2 then True
      else src_route_loop K s optoff optlen k (i + unat (l ! 0)))"

definition ip4_has_source_route :: "kernel \<Rightarrow> skb \<Rightarrow> nat \<Rightarrow> nat \<Rightarrow> bool" where
  "ip4_has_source_route K s optoff optlen =
     (if optlen < 4 \<or> optlen > 40 \<or> optlen AND 3 \<noteq> 0 then True
      else src_route_loop K s optoff optlen 40 0)"

section \<open>References\<close>

text \<open>The types of the options of a well-formed option list, up to its end.\<close>

fun option_types :: "bytes \<Rightarrow> u8 list option" where
  "option_types [] = Some []"
| "option_types (t # xs) =
     (if t = 0 then Some []
      else if t = 1 then map_option ((#) t) (option_types xs)
      else case xs of
        [] \<Rightarrow> None
      | l # ys \<Rightarrow>
          if unat l < 2 \<or> length ys < unat l - 2 then None
          else map_option ((#) t) (option_types (drop (unat l - 2) ys)))"

text \<open>The same walk without the check that an option ends inside the list.\<close>

fun option_walk :: "bytes \<Rightarrow> bool" where
  "option_walk [] = False"
| "option_walk (t # xs) =
     (if t = 0 then False
      else if t = 1 then option_walk xs
      else if t = IPOPT_LSRR_T \<or> t = IPOPT_SSRR_T then True
      else case xs of
        [] \<Rightarrow> True
      | l # ys \<Rightarrow> if unat l < 2 then True else option_walk (drop (unat l - 2) ys))"

definition source_routed :: "u8 list \<Rightarrow> bool" where
  "source_routed ts \<longleftrightarrow> IPOPT_LSRR_T \<in> set ts \<or> IPOPT_SSRR_T \<in> set ts"

lemma option_walk_types:
  "option_types xs = Some ts \<Longrightarrow> option_walk xs \<longleftrightarrow> source_routed ts"
proof (induction xs arbitrary: ts rule: option_types.induct)
  case (2 t xs)
  then show ?case
    by (auto simp: source_routed_def const_defs split: if_splits list.splits)
qed (simp add: source_routed_def)

lemma drop_window: "drop i (window off n xs) = window (off + i) (n - i) xs"
  by (simp add: window_def drop_take add.commute)

lemma window_Cons:
  "0 < n \<Longrightarrow> off + n \<le> length xs \<Longrightarrow> window off n xs = xs ! off # window (Suc off) (n - 1) xs"
  by (cases n) (simp_all add: window_def Cons_nth_drop_Suc [symmetric])

text \<open>The walk from offset \<open>i\<close> of an option area, and one step of it.\<close>

definition walk_from :: "bytes \<Rightarrow> nat \<Rightarrow> nat \<Rightarrow> nat \<Rightarrow> bool" where
  "walk_from p off n i = option_walk (window (off + i) (n - i) p)"

lemma walk_from_end: "n \<le> i \<Longrightarrow> \<not> walk_from p off n i"
  by (simp add: walk_from_def window_def)

lemma walk_from_step:
  assumes "i < n" and "off + n \<le> length p" and "t = p ! (off + i)" and "l = p ! (off + i + 1)"
  shows "walk_from p off n i =
    (if t = 0 then False
     else if t = 1 then walk_from p off n (i + 1)
     else if t = IPOPT_LSRR_T \<or> t = IPOPT_SSRR_T then True
     else if i + 1 \<ge> n then True
     else if l < 2 then True
     else walk_from p off n (i + unat l))"
proof -
  have w: "window (off + i) (n - i) p = t # window (off + (i + 1)) (n - (i + 1)) p"
    using assms window_Cons [of "n - i" "off + i" p] by simp
  show ?thesis
  proof (cases "n \<le> i + 1")
    case True
    then have "window (off + (i + 1)) (n - (i + 1)) p = []" by (simp add: window_def)
    with w True show ?thesis by (simp add: walk_from_def)
  next
    case False
    then have w': "window (off + (i + 1)) (n - (i + 1)) p = l # window (off + (i + 2)) (n - (i + 2)) p"
      using assms window_Cons [of "n - (i + 1)" "off + (i + 1)" p] by simp
    have "drop (unat l - 2) (window (off + (i + 2)) (n - (i + 2)) p) =
      window (off + (i + unat l)) (n - (i + unat l)) p" if "\<not> unat l < 2"
    proof -
      obtain m where "unat l = 2 + m" using \<open>\<not> unat l < 2\<close> by (metis le_Suc_ex not_less)
      then show ?thesis by (simp add: drop_window add.assoc)
    qed
    moreover have "l < 2 \<longleftrightarrow> unat l < 2" by (simp add: word_less_nat_alt)
    ultimately show ?thesis using w w' False by (simp add: walk_from_def del: drop_window)
  qed
qed

lemma unat_pos_if_not_less_2: "\<not> (x :: u8) < 2 \<Longrightarrow> 0 < unat x"
  by (simp add: word_less_nat_alt)

context bpf_kernel
begin

text \<open>If the loop lets a list through, so does the walk, whatever the helper does.\<close>

lemma src_route_loop_walk:
  assumes "optoff + optlen \<le> length (pkt s)" and "optlen \<le> k + i"
    and "\<not> src_route_loop K s optoff optlen k i"
  shows "\<not> walk_from (pkt s) optoff optlen i"
  using assms
proof (induction k arbitrary: i)
  case (Suc k)
  show ?case
  proof (cases "optlen \<le> i")
    case False
    obtain rc t where ld: "bpf_skb_load_bytes K s (optoff + i) 1 = (rc, t)" by fastforce
    obtain rc' l where ld': "bpf_skb_load_bytes K s (optoff + i + 1) 1 = (rc', l)" by fastforce
    have t: "\<not> rc < 0 \<Longrightarrow> t ! 0 = pkt s ! (optoff + i)"
      using load_ok [OF ld] by (simp add: nth_window)
    have l: "\<not> rc' < 0 \<Longrightarrow> l ! 0 = pkt s ! (optoff + i + 1)"
      using load_ok [OF ld'] by (simp add: nth_window)
    have IH: "\<not> src_route_loop K s optoff optlen k j \<Longrightarrow> i < j \<Longrightarrow> \<not> walk_from (pkt s) optoff optlen j" for j
      by (rule Suc.IH) (use Suc.prems in simp_all)
    note step = walk_from_step [of i optlen optoff "pkt s", OF _ Suc.prems(1) refl refl]
    from Suc.prems(3) False ld ld' t l show ?thesis
      using unat_pos_if_not_less_2 [of "l ! 0"] IH [of "i + 1"] IH [of "i + unat (l ! 0)"]
      by (simp add: step split: if_splits)
  qed (rule walk_from_end)
qed (use walk_from_end in simp)

end

context bpf_kernel_live
begin

lemma load_byte_live:
  assumes "off < length (pkt s)"
  shows "bpf_skb_load_bytes K s off 1 = (0, [pkt s ! off])"
proof -
  have "0 \<le> fst (bpf_skb_load_bytes K s off 1)"
    using assms by (intro load_live) simp_all
  moreover have "window off 1 (pkt s) = [pkt s ! off]"
    using assms window_Cons [of 1 off "pkt s"] by (simp add: window_def)
  ultimately show ?thesis using load_ok [of s off 1] by (metis not_less prod.collapse)
qed

lemma src_route_loop_eq:
  assumes "optoff + optlen \<le> length (pkt s)" and "optlen \<le> k + i"
  shows "src_route_loop K s optoff optlen k i = walk_from (pkt s) optoff optlen i"
  using assms
proof (induction k arbitrary: i)
  case (Suc k)
  show ?case
  proof (cases "optlen \<le> i")
    case False
    have IH: "i < j \<Longrightarrow> src_route_loop K s optoff optlen k j = walk_from (pkt s) optoff optlen j" for j
      by (rule Suc.IH) (use Suc.prems in simp_all)
    have ld: "bpf_skb_load_bytes K s (optoff + i) 1 = (0, [pkt s ! (optoff + i)])"
      and ld': "i + 1 < optlen \<Longrightarrow> bpf_skb_load_bytes K s (optoff + i + 1) 1 = (0, [pkt s ! (optoff + i + 1)])"
      using False Suc.prems(1) by (auto intro!: load_byte_live simp del: One_nat_def)
    note step = walk_from_step [of i optlen optoff "pkt s", OF _ Suc.prems(1) refl refl]
    from False show ?thesis
      using unat_pos_if_not_less_2 [of "pkt s ! (optoff + i + 1)"] IH [of "i + 1"]
        IH [of "i + unat (pkt s ! (optoff + i + 1))"] ld ld'
      by (simp add: step)
  qed (simp add: walk_from_end)
qed (simp add: walk_from_end)

end

lemma and_3_mod_4: "(n :: nat) AND 3 = n mod 4"
proof -
  have "(3 :: nat) = mask 2" by (simp add: mask_eq_exp_minus_1)
  then have "n AND 3 = take_bit 2 n" by (simp only: take_bit_eq_mask)
  then show ?thesis by (simp add: take_bit_eq_mod)
qed

context bpf_kernel
begin

lemma no_source_route_walk:
  assumes "\<not> ip4_has_source_route K s off n" and "off + n \<le> length (pkt s)"
  shows "4 \<le> n \<and> n \<le> 40 \<and> n mod 4 = 0 \<and> \<not> option_walk (window off n (pkt s))"
proof -
  have n: "4 \<le> n" "n \<le> 40" "n mod 4 = 0" and "\<not> src_route_loop K s off n 40 0"
    using assms(1) by (auto simp: ip4_has_source_route_def and_3_mod_4 split: if_splits)
  then have "\<not> walk_from (pkt s) off n 0"
    by (intro src_route_loop_walk [OF assms(2)]) simp_all
  with n show ?thesis by (simp add: walk_from_def)
qed

end

context bpf_kernel_live
begin

lemma source_route_eq_walk:
  assumes "4 \<le> n" and "n \<le> 40" and "n mod 4 = 0" and "off + n \<le> length (pkt s)"
  shows "ip4_has_source_route K s off n = option_walk (window off n (pkt s))"
  using assms src_route_loop_eq [OF assms(4), of 40 0]
  by (simp add: ip4_has_source_route_def and_3_mod_4 walk_from_def)

end

section \<open>Properties\<close>

text \<open>
  (C27) On a well-formed option list of a legal length, and with loads that
  succeed inside the packet, \<open>ip4_has_source_route\<close> answers whether the list has a loose
  or strict source route option.
\<close>

theorem source_route_exact:
  assumes "bpf_kernel_live e K" and "4 \<le> n" and "n \<le> 40" and "n mod 4 = 0"
    and "off + n \<le> length (pkt s)" and "option_types (window off n (pkt s)) = Some ts"
  shows "ip4_has_source_route K s off n \<longleftrightarrow> source_routed ts"
  using bpf_kernel_live.source_route_eq_walk [OF assms(1-5)] option_walk_types [OF assms(6)] by simp

definition sr_skb :: "bytes \<Rightarrow> skb" where
  "sr_skb bs = \<lparr>pkt = bs, linear = length bs, protocol = ETH_P_IP, ip_summed = CHECKSUM_NONE\<rparr>"

theorem source_route_exact_witness:
  "ip4_has_source_route (ref_kernel LITTLE_ENDIAN) (sr_skb [7, 1, 148, 4, 0, 0, 131, 3, 4, 0]) 1 8 \<longleftrightarrow>
   source_routed [1, 148, 131]"
  by (rule source_route_exact [OF ref.bpf_kernel_live_axioms]) (simp_all add: sr_skb_def window_def)

text \<open>
  (C28) Whatever loads the kernel refuses, a packet whose well-formed option
  list holds a source route is never reported free of one.
\<close>

theorem source_route_safe:
  assumes "bpf_kernel e K" and "off + n \<le> length (pkt s)"
    and "option_types (window off n (pkt s)) = Some ts" and "source_routed ts"
  shows "ip4_has_source_route K s off n"
  using bpf_kernel.no_source_route_walk [OF assms(1) _ assms(2)] option_walk_types [OF assms(3)] assms(4)
  by auto

theorem source_route_safe_witness:
  "ip4_has_source_route (ref_kernel BIG_ENDIAN) (sr_skb [1, 137, 3, 4]) 0 4"
  by (rule source_route_safe [OF ref.bpf_kernel_axioms, where ts = "[1, 137]"])
    (simp_all add: sr_skb_def window_def source_routed_def const_defs)

text \<open>
  (C35) The comment over \<open>ip4_has_source_route\<close> promises \<open>true\<close> for
  a malformed list. A first option whose length byte runs past the end of the option area
  makes the list malformed, and yet the answer is \<open>false\<close>: the loop adds the length to
  \<open>i\<close> and stops because \<open>i\<close> passed \<open>optlen\<close>.
\<close>

theorem source_route_overrun:
  assumes "bpf_kernel_live e K" and "4 \<le> n" and "n \<le> 40" and "n mod 4 = 0"
    and "off + n \<le> length (pkt s)"
    and "pkt s ! off \<notin> {0, 1, IPOPT_LSRR_T, IPOPT_SSRR_T}" and "n < unat (pkt s ! Suc off)"
  shows "option_types (window off n (pkt s)) = None \<and> \<not> ip4_has_source_route K s off n"
proof -
  have w: "window off n (pkt s) = pkt s ! off # pkt s ! Suc off # window (Suc (Suc off)) (n - 1 - 1) (pkt s)"
    using assms(2,5) by (simp add: window_Cons)
  have "n - 1 - 1 < unat (pkt s ! Suc off) - 2" using assms(2,7) by linarith
  then have "option_types (window off n (pkt s)) = None \<and> \<not> option_walk (window off n (pkt s))"
    unfolding w using assms(2,5-7) by simp
  then show ?thesis using bpf_kernel_live.source_route_eq_walk [OF assms(1-5)] by simp
qed

theorem source_route_overrun_witness:
  "option_types (window 0 4 [68, 5, 5, 0]) = None \<and>
   \<not> ip4_has_source_route (ref_kernel LITTLE_ENDIAN) (sr_skb [68, 5, 5, 0]) 0 4"
  using source_route_overrun [OF ref.bpf_kernel_live_axioms, of 4 0 "sr_skb [68, 5, 5, 0]" LITTLE_ENDIAN]
  by (simp add: sr_skb_def const_defs)

end
