(* ===== verification/Udp_Csum.thy ===== *)
theory Udp_Csum
  imports Clat_Base
begin

text \<open>
  The full UDP checksum (\<open>udp_full_csum\<close> of \<open>bpf/clat.c\<close>): whole 256-byte chunks, then
  a zero-padded tail, summed through \<open>bpf_csum_diff\<close>. The C loop runs at most
  \<open>CSUM_MAX_CHUNKS\<close> times, the first argument of \<open>csum_chunks\<close>; the length limit in
  front of it makes the bound large enough for every length it lets through. The lemmas
  compare the result with the plain sum of the datagram. \<open>None\<close> is the C result \<open>-1\<close>.
\<close>

section \<open>The program\<close>

fun csum_chunks :: "kernel \<Rightarrow> skb \<Rightarrow> nat \<Rightarrow> nat \<Rightarrow> nat \<Rightarrow> nat \<Rightarrow> u32 \<Rightarrow> (nat \<times> u32) option" where
  "csum_chunks K s l4off ulen 0 off sm = Some (off, sm)"
| "csum_chunks K s l4off ulen (Suc n) off sm =
     (if off + CSUM_CHUNK > ulen then Some (off, sm)
      else let (rc, buf) = bpf_skb_load_bytes K s (l4off + off) CSUM_CHUNK
      in if rc < 0 then None
      else csum_chunks K s l4off ulen n (off + CSUM_CHUNK)
             (word_of_int (bpf_csum_diff K [] buf sm)))"

definition udp_full_csum :: "kernel \<Rightarrow> skb \<Rightarrow> nat \<Rightarrow> nat \<Rightarrow> u32 \<Rightarrow> u16 option" where
  "udp_full_csum K s l4off ulen seed =
     (if ulen > CSUM_CHUNK * CSUM_MAX_CHUNKS then None
      else case csum_chunks K s l4off ulen CSUM_MAX_CHUNKS 0 seed of
        None \<Rightarrow> None
      | Some (off, sm) \<Rightarrow>
          let tail = (ulen - off) AND (CSUM_CHUNK - 1);
              res = (\<lambda>sm. let out = csum_fold sm in if out = 0 then 0xffff else out)
          in if tail \<noteq> 0 then
               let buf = replicate CSUM_CHUNK 0;
                   (rc, bs) = bpf_skb_load_bytes K s (l4off + off) tail
               in if rc < 0 then None
                  else Some (res (word_of_int (bpf_csum_diff K [] (overwrite 0 bs buf) sm)))
             else Some (res sm))"

section \<open>Lemmas\<close>

lemma and_255_mod_256: "(n :: nat) AND (256 - 1) = n mod 256"
proof -
  have "(256 - 1 :: nat) = mask 8" by (simp add: mask_eq_exp_minus_1)
  then have "n AND (256 - 1) = take_bit 8 n" by (simp only: take_bit_eq_mask)
  then show ?thesis by (simp add: take_bit_eq_mod)
qed

lemma nsum_zeros: "nsum e (replicate n 0) = 0"
proof (induction n rule: induct_nat_012)
  case (ge2 n)
  then show ?case by simp
qed simp_all

lemma nsum_zero_padded: "nsum e (xs @ replicate n 0) = nsum e xs"
proof (induction xs rule: induct_list012)
  case 1
  show ?case by (simp add: nsum_zeros)
next
  case (2 x)
  show ?case by (cases n) (simp_all add: nsum_zeros)
qed simp

lemma nsum_window_split:
  "even m \<Longrightarrow> off + m \<le> length xs \<Longrightarrow>
   nsum e (window off (m + n) xs) = nsum e (window off m xs) + nsum e (window (off + m) n xs)"
  by (simp add: window_def take_add nsum_append add.commute)

definition udp_result :: "u32 \<Rightarrow> u16" where
  "udp_result sm = (let out = csum_fold sm in if out = 0 then 0xffff else out)"

lemma udp_result_nonzero: "udp_result sm \<noteq> 0"
  by (simp add: udp_result_def Let_def)

lemma udp_result_eqc: "eqc (uint (udp_result sm) + uint sm) 0"
proof (cases "csum_fold sm = 0")
  case True
  then have "eqc (uint sm) 0" by (simp add: csum_fold_zero_iff)
  then have "eqc (65535 + uint sm) (65535 + 0)" by (intro eqc_add eqc_refl)
  then have "eqc (65535 + uint sm) 0" using eqc_65535 [of 1] eqc_trans by fastforce
  with True show ?thesis by (simp add: udp_result_def)
next
  case False
  then show ?thesis using csum_fold_eqc [of sm] by (simp add: udp_result_def)
qed

context bpf_kernel
begin

text \<open>Pushing one chunk adds its sum.\<close>

lemma push_chunk:
  assumes "length buf = 256" and "eqc (uint sm) (v + int (nsum e xs))"
  shows "eqc (uint (word_of_int (bpf_csum_diff K [] buf sm) :: u32)) (v + int (nsum e xs + nsum e buf))"
proof -
  have "eqc (uint (word_of_int (bpf_csum_diff K [] buf sm) :: u32)) (uint sm + int (nsum e buf))"
    using csum_diff_wsum [of "[]" buf sm] assms(1) by simp
  moreover have "eqc (uint sm + int (nsum e buf)) (v + int (nsum e xs) + int (nsum e buf))"
    by (intro eqc_add assms(2) eqc_refl)
  ultimately show ?thesis using eqc_trans by (simp add: add.assoc)
qed

lemma csum_chunks_sum:
  assumes "csum_chunks K s l4off ulen n off sm = Some (off', sm')"
    and "even off" and "off \<le> ulen" and "off = 0 \<or> l4off + off \<le> length (pkt s)"
    and "eqc (uint sm) (v + int (nsum e (window l4off off (pkt s))))"
  shows "even off' \<and> off' \<le> ulen \<and> (off' = 0 \<or> l4off + off' \<le> length (pkt s)) \<and>
    off' mod 256 = off mod 256 \<and> (ulen < off' + 256 \<or> off' = off + 256 * n) \<and>
    eqc (uint sm') (v + int (nsum e (window l4off off' (pkt s))))"
  using assms
proof (induction n arbitrary: off sm)
  case (Suc n)
  show ?case
  proof (cases "off + 256 > ulen")
    case True
    with Suc.prems show ?thesis by (simp add: const_defs)
  next
    case False
    obtain rc buf where ld: "bpf_skb_load_bytes K s (l4off + off) 256 = (rc, buf)" by fastforce
    with False Suc.prems(1) have rc: "\<not> rc < 0"
      and rec: "csum_chunks K s l4off ulen n (off + 256) (word_of_int (bpf_csum_diff K [] buf sm)) = Some (off', sm')"
      by (simp_all add: const_defs split: if_splits)
    have len: "l4off + off + 256 \<le> length (pkt s)" and buf: "buf = window (l4off + off) 256 (pkt s)"
      using load_ok [OF ld rc] by simp_all
    have "nsum e (window l4off (off + 256) (pkt s)) = nsum e (window l4off off (pkt s)) + nsum e buf"
      unfolding buf using Suc.prems(2) len by (intro nsum_window_split) simp_all
    moreover have "length buf = 256" using buf len by simp
    ultimately have
      "eqc (uint (word_of_int (bpf_csum_diff K [] buf sm) :: u32)) (v + int (nsum e (window l4off (off + 256) (pkt s))))"
      using push_chunk [OF _ Suc.prems(5)] by simp
    from Suc.IH [OF rec _ _ _ this] Suc.prems(2) False len show ?thesis
      by (auto simp: algebra_simps)
  qed
qed simp

lemma udp_full_csum_sum:
  assumes "udp_full_csum K s l4off ulen seed = Some c"
  shows "ulen \<le> 10240 \<and> (ulen = 0 \<or> l4off + ulen \<le> length (pkt s)) \<and> c \<noteq> 0 \<and>
    eqc (uint c + (uint seed + int (nsum e (window l4off ulen (pkt s))))) 0"
proof -
  from assms obtain off sm where lim: "ulen \<le> 10240"
    and ch: "csum_chunks K s l4off ulen 40 0 seed = Some (off, sm)"
    by (auto simp: udp_full_csum_def const_defs split: if_splits option.splits)
  let ?t = "ulen - off"
  have "eqc (uint seed) (uint seed + int (nsum e (window l4off 0 (pkt s))))" by (simp add: window_def)
  from csum_chunks_sum [OF ch _ _ _ this]
  have off: "even off" "off \<le> ulen" "off = 0 \<or> l4off + off \<le> length (pkt s)"
    and stop: "ulen < off + 256 \<or> off = 10240"
    and sm: "eqc (uint sm) (uint seed + int (nsum e (window l4off off (pkt s))))" by auto
  then have t: "?t < 256" using lim by linarith
  obtain sm' where c: "c = udp_result sm'" and rng: "ulen = 0 \<or> l4off + ulen \<le> length (pkt s)"
    and sm': "eqc (uint sm') (uint seed + int (nsum e (window l4off ulen (pkt s))))"
  proof (cases "?t = 0")
    case True
    then have "ulen = off" using off(2) by simp
    moreover have "c = udp_result sm"
      using assms ch lim True by (simp add: udp_full_csum_def const_defs and_255_mod_256 [simplified] udp_result_def)
    ultimately show ?thesis using that [of sm] off sm by blast
  next
    case False
    obtain rc bs where ld: "bpf_skb_load_bytes K s (l4off + off) ?t = (rc, bs)" by fastforce
    have rc: "\<not> rc < 0" and c: "c = udp_result (word_of_int (bpf_csum_diff K [] (overwrite 0 bs (replicate 256 0)) sm))"
      using assms ch lim False t ld
      by (simp_all add: udp_full_csum_def const_defs and_255_mod_256 [simplified] udp_result_def split: if_splits)
    have len: "l4off + off + ?t \<le> length (pkt s)" and bs: "bs = window (l4off + off) ?t (pkt s)"
      using load_ok [OF ld rc] by simp_all
    then have lbs: "length bs = ?t" by simp
    then have pad: "overwrite 0 bs (replicate 256 0) = bs @ replicate (256 - ?t) 0"
      by (simp add: overwrite_def)
    have "nsum e (window l4off ulen (pkt s)) = nsum e (window l4off off (pkt s)) + nsum e bs"
      using nsum_window_split [of off l4off "pkt s" e ?t] off len bs by simp
    moreover have "eqc (uint (word_of_int (bpf_csum_diff K [] (overwrite 0 bs (replicate 256 0)) sm) :: u32))
      (uint seed + int (nsum e (window l4off off (pkt s)) + nsum e (overwrite 0 bs (replicate 256 0))))"
      by (rule push_chunk [OF _ sm]) (use t lbs pad in simp)
    ultimately show ?thesis
      using that [OF c] off len by (simp add: pad nsum_zero_padded)
  qed
  have "eqc (uint c + (uint seed + int (nsum e (window l4off ulen (pkt s))))) (uint c + uint sm')"
    by (intro eqc_add eqc_refl eqc_sym [OF sm'])
  with c have "eqc (uint c + (uint seed + int (nsum e (window l4off ulen (pkt s))))) 0"
    using udp_result_eqc [of sm'] eqc_trans by blast
  with lim rng c show ?thesis by (simp add: udp_result_nonzero)
qed

end

context bpf_kernel_live
begin

lemma csum_chunks_live:
  "l4off + ulen \<le> length (pkt s) \<Longrightarrow> off \<le> ulen \<Longrightarrow>
   \<exists>off' sm'. csum_chunks K s l4off ulen n off sm = Some (off', sm') \<and> off' \<le> ulen"
proof (induction n arbitrary: off sm)
  case (Suc n)
  show ?case
  proof (cases "off + 256 > ulen")
    case False
    then have "0 \<le> fst (bpf_skb_load_bytes K s (l4off + off) 256)"
      using Suc.prems by (intro load_live) simp_all
    with False Suc show ?thesis by (auto simp: const_defs split: prod.splits)
  qed (use Suc.prems in \<open>simp add: const_defs\<close>)
qed simp

lemma udp_full_csum_live:
  assumes "l4off + ulen \<le> length (pkt s)" and "ulen \<le> 10240"
  shows "\<exists>c. udp_full_csum K s l4off ulen seed = Some c"
proof -
  obtain off sm where ch: "csum_chunks K s l4off ulen 40 0 seed = Some (off, sm)" and off: "off \<le> ulen"
    using csum_chunks_live [OF assms(1), of 0 40 seed] by auto
  let ?t = "(ulen - off) mod 256"
  show ?thesis
  proof (cases "?t = 0")
    case True
    then show ?thesis
      using ch assms(2) by (simp add: udp_full_csum_def const_defs and_255_mod_256 [simplified])
  next
    case False
    have "?t \<le> ulen - off" by simp
    then have "l4off + off + ?t \<le> length (pkt s)" using assms(1) off by linarith
    with False have "0 \<le> fst (bpf_skb_load_bytes K s (l4off + off) ?t)"
      by (intro load_live) simp_all
    then obtain rc bs where "bpf_skb_load_bytes K s (l4off + off) ?t = (rc, bs)" and "\<not> rc < 0"
      by (cases "bpf_skb_load_bytes K s (l4off + off) ?t") simp
    then show ?thesis
      using ch assms(2) by (simp add: udp_full_csum_def const_defs and_255_mod_256 [simplified] Let_def)
  qed
qed

end

context bpf_kernel
begin

lemma udp_full_csum_fill:
  assumes r: "udp_full_csum K s l4off ulen seed = Some c"
    and ps: "even (length ps)" "nsum e ps \<noteq> 0" "eqc (uint seed) (int (nsum e ps))"
    and z: "8 \<le> ulen" "window (l4off + 6) 2 (pkt s) = [0, 0]"
  shows "c \<noteq> 0 \<and> inet_ok (ps @ overwrite 6 (st16 e c) (window l4off ulen (pkt s)))"
proof -
  let ?d = "window l4off ulen (pkt s)"
  have c: "c \<noteq> 0" and len: "length ?d = ulen"
    and s: "eqc (uint c + (uint seed + int (nsum e ?d))) 0"
    using udp_full_csum_sum [OF r] z(1) by auto
  have "eqc (uint c + (uint seed + int (nsum e ?d))) (uint c + (int (nsum e ps) + int (nsum e ?d)))"
    by (intro eqc_add eqc_refl ps(3))
  then have "eqc (uint c + int (nsum e (ps @ ?d))) 0"
    using eqc_trans [OF eqc_sym s] ps(1) by (simp add: nsum_append)
  moreover have "window 6 2 ?d = [0, 0]"
    using z len by (simp add: window_def drop_take min_def add.commute)
  ultimately have "inet_ok (overwrite (length ps + 6) (st16 e c) (ps @ ?d))"
    using ps len z(1) by (intro inet_ok_fill [where e = e]) (simp_all add: nsum_append window_def)
  with c show ?thesis by (simp add: overwrite_def)
qed

end

section \<open>Properties\<close>

text \<open>
  (C29) A checksum \<open>udp_full_csum\<close> returns is never zero, and written
  into the zero checksum field of the datagram it makes pseudo-header and datagram verify
  under RFC 1071, when \<open>seed\<close> is a sum of the pseudo-header.
\<close>

theorem udp_full_csum_valid:
  assumes K: "bpf_kernel e K" and r: "udp_full_csum K s l4off ulen seed = Some c"
    and ps: "even (length ps)" "nsum e ps \<noteq> 0" "eqc (uint seed) (int (nsum e ps))"
    and z: "8 \<le> ulen" "window (l4off + 6) 2 (pkt s) = [0, 0]"
  shows "c \<noteq> 0 \<and> inet_ok (ps @ overwrite 6 (st16 e c) (window l4off ulen (pkt s)))"
  by (rule bpf_kernel.udp_full_csum_fill [OF assms])

text \<open>
  (C30) With a kernel that serves loads inside the packet,
  \<open>udp_full_csum\<close> returns a checksum for exactly the datagrams of up to 10240 bytes: the
  bound on its loop is no further limit.
\<close>

theorem udp_full_csum_total:
  assumes "bpf_kernel_live e K" and "l4off + ulen \<le> length (pkt s)"
  shows "(\<exists>c. udp_full_csum K s l4off ulen seed = Some c) \<longleftrightarrow> ulen \<le> CSUM_CHUNK * CSUM_MAX_CHUNKS"
  using bpf_kernel_live.udp_full_csum_live [OF assms(1,2)]
  by (auto simp: udp_full_csum_def const_defs)

lemma csum_chunks_stop: "ulen < off + CSUM_CHUNK \<Longrightarrow> csum_chunks K s l4off ulen n off sm = Some (off, sm)"
  by (cases n) simp_all

definition udp_example :: skb where
  "udp_example = \<lparr>pkt = [0xaa, 1, 2, 3, 4, 0, 9, 0, 0, 0x41], linear = 10, protocol = ETH_P_IPV6,
                  ip_summed = CHECKSUM_NONE\<rparr>"

theorem udp_full_csum_valid_witness:
  "0xbaef \<noteq> (0 :: u16) \<and> inet_ok ([0, 1] @ overwrite 6 (st16 BIG_ENDIAN 0xbaef) (window 1 9 (pkt udp_example)))"
  by (rule udp_full_csum_valid [OF ref.bpf_kernel_axioms, where l4off = 1 and ulen = 9 and seed = 1])
    (simp_all add: udp_example_def udp_full_csum_def csum_chunks_stop const_defs and_255_mod_256 [simplified]
      nsum_zero_padded [of _ "[_]", simplified] ref_kernel_def ref_csum_diff_def window_def overwrite_def join16_def csum_fold_def fold1c_def eqc_def)

theorem udp_full_csum_total_witness:
  "(\<exists>c. udp_full_csum (ref_kernel LITTLE_ENDIAN) udp_example 1 9 5 = Some c) \<longleftrightarrow>
   9 \<le> CSUM_CHUNK * CSUM_MAX_CHUNKS"
  by (rule udp_full_csum_total [OF ref.bpf_kernel_live_axioms]) (simp add: udp_example_def)

end
