(* ===== verification/Egress_Model.thy ===== *)
theory Egress_Model
  imports Source_Route Udp_Csum Verdicts
begin

text \<open>
  \<open>clat_egress\<close> of \<open>bpf/clat.c\<close>: IPv4 to IPv6. The function is cut into the stages its
  comments name: header checks (\<open>egress_parse\<close>), IPv4 options (\<open>egress_options\<close>), the
  reshape into an IPv6 frame with its header stores (\<open>egress_reshape\<close>), and the transport
  checksum by protocol (\<open>egress_tcp\<close>, \<open>egress_udp\<close>, \<open>egress_icmp\<close>). \<open>eg\<close> holds the C
  locals that live across stages.
\<close>

record eg =
  eg_saddr :: u32
  eg_daddr :: u32
  eg_tos :: u8
  eg_ttl :: u8
  eg_proto :: u8
  eg_id :: u16
  eg_frag_off :: u16
  eg_is_frag :: bool
  eg_mf :: bool
  eg_first :: bool
  eg_optlen :: nat
  eg_l4len :: nat

definition egress_parse :: "byte_order \<Rightarrow> kernel \<Rightarrow> rodata \<Rightarrow> world \<Rightarrow> (eg \<times> world) step" where
  "egress_parse e K R w =
     (if ETH_HLEN > linear (w_skb w) then Return TC_ACT_OK w
      else case lin_read (w_skb w) 12 2 of None \<Rightarrow> Fault | Some h_proto \<Rightarrow>
      if ld16 e (h_proto ! 0) (h_proto ! 1) \<noteq> bpf_htons e ETH_P_IP then Return TC_ACT_OK w
      else let (lin, s) = ensure_linear K (w_skb w) (ETH_HLEN + IP4_HLEN);
               w = w\<lparr>w_skb := s\<rparr>
      in if \<not> lin then DROP K CNT_EGRESS_DROP_TRUNCATED w
      else if ETH_HLEN + IP4_HLEN > linear s then DROP K CNT_EGRESS_DROP_TRUNCATED w
      else case lin_read s ETH_HLEN IP4_HLEN of None \<Rightarrow> Fault | Some b \<Rightarrow>
      let ip4 = iphdr_of e b
      in if ip_version ip4 \<noteq> 4 then DROP K CNT_EGRESS_DROP_TRUNCATED w
      else let ihl = unat (ip_ihl ip4) * 4
      in if ihl < IP4_HLEN then DROP K CNT_EGRESS_DROP_TRUNCATED w
      else let saddr = ip_saddr ip4; daddr = ip_daddr ip4
      in if saddr \<noteq> POD_IP4 R then DROP K CNT_EGRESS_DROP_BAD_SRC w
      else if daddr AND bpf_htonl e 0xf0000000 = bpf_htonl e 0xe0000000 \<or>
              daddr = bpf_htonl e 0xffffffff then DROP K CNT_EGRESS_DROP_MCAST w
      else let tot_len = bpf_ntohs e (ip_tot_len ip4);
               frag_off = bpf_ntohs e (ip_frag_off ip4);
               proto = ip_protocol ip4
      in if unat tot_len < ihl then DROP K CNT_EGRESS_DROP_TRUNCATED w
      else let is_frag = (frag_off AND (IP_MF OR IP_OFFSET) \<noteq> 0)
      in if is_frag \<and> proto = IPPROTO_ICMP then DROP K CNT_EGRESS_DROP_FRAG_NO_CSUM w
      else Next (\<lparr>eg_saddr = saddr, eg_daddr = daddr, eg_tos = ip_tos ip4, eg_ttl = ip_ttl ip4,
                  eg_proto = proto, eg_id = ip_id ip4, eg_frag_off = frag_off,
                  eg_is_frag = is_frag, eg_mf = (frag_off AND IP_MF \<noteq> 0),
                  eg_first = (frag_off AND IP_OFFSET = 0),
                  eg_optlen = ihl - IP4_HLEN, eg_l4len = unat tot_len - ihl\<rparr>, w))"

text \<open>Drop source routes, strip the other options.\<close>

definition egress_options :: "kernel \<Rightarrow> eg \<Rightarrow> world \<Rightarrow> world step" where
  "egress_options K v w =
     (if eg_optlen v = 0 then Next w
      else if ip4_has_source_route K (w_skb w) (ETH_HLEN + IP4_HLEN) (eg_optlen v)
      then DROP K CNT_EGRESS_DROP_SRCROUTE w
      else let (rc, s) = bpf_skb_adjust_room K (w_skb w) (- int (eg_optlen v)) BPF_ADJ_ROOM_NET ROOM_FLAGS;
               w = w\<lparr>w_skb := s\<rparr>
      in if rc < 0 then DROP K CNT_EGRESS_DROP_HELPER w else Next w)"

definition egress_nh6 :: "eg \<Rightarrow> u8" where
  "egress_nh6 v = (if eg_proto v = IPPROTO_ICMP then IPPROTO_ICMPV6 else eg_proto v)"

definition egress_h6 :: "byte_order \<Rightarrow> rodata \<Rightarrow> eg \<Rightarrow> ipv6hdr" where
  "egress_h6 e R v =
     \<lparr>ip6_word0 = bpf_htonl e (0x60000000 OR push_bit 20 (ucast (eg_tos v))),
      ip6_payload_len =
        bpf_htons e (word_of_nat (eg_l4len v + (if eg_is_frag v then FRAG_HLEN else 0))),
      ip6_nexthdr = (if eg_is_frag v then IPPROTO_FRAGMENT else egress_nh6 v),
      ip6_hop_limit = eg_ttl v,
      ip6_saddr = prefix_copy (POD_IP6 R),
      ip6_daddr = (prefix_copy (CLAT_PREFIX R))\<lparr>u6_addr32_3 := eg_daddr v\<rparr>\<rparr>"

definition egress_fh :: "byte_order \<Rightarrow> eg \<Rightarrow> frag_hdr" where
  "egress_fh e v =
     \<lparr>fh_nexthdr = egress_nh6 v, fh_reserved = 0,
      fh_frag_off = bpf_htons e (push_bit 3 (eg_frag_off v AND IP_OFFSET) OR (if eg_mf v then 1 else 0)),
      fh_identification = bpf_htonl e (ucast (bpf_ntohs e (eg_id v)))\<rparr>"

text \<open>Reshape the packet and write the new headers; the result is \<open>l4off\<close>.\<close>

definition egress_reshape :: "byte_order \<Rightarrow> kernel \<Rightarrow> rodata \<Rightarrow> eg \<Rightarrow> world \<Rightarrow> (nat \<times> world) step" where
  "egress_reshape e K R v w =
     (let (rc, s) = bpf_skb_change_proto K (w_skb w) (bpf_htons e ETH_P_IPV6) 0;
          w = w\<lparr>w_skb := s\<rparr>
      in if rc < 0 then DROP K CNT_EGRESS_DROP_HELPER w
      else let (rc, s) = (if eg_is_frag v
                          then bpf_skb_adjust_room K (w_skb w) (int FRAG_HLEN) BPF_ADJ_ROOM_NET ROOM_FLAGS
                          else (0, w_skb w));
               w = w\<lparr>w_skb := s\<rparr>
      in if rc < 0 then DROP K CNT_EGRESS_DROP_HELPER w
      else let (rc, s) = bpf_skb_store_bytes K (w_skb w) ETH_HLEN (ipv6hdr_bytes e (egress_h6 e R v)) STORE_FLAGS;
               w = w\<lparr>w_skb := s\<rparr>
      in if rc < 0 then DROP K CNT_EGRESS_DROP_HELPER w
      else let l4off = ETH_HLEN + IP6_HLEN;
               (rc, s) = (if eg_is_frag v
                          then bpf_skb_store_bytes K (w_skb w) l4off (frag_hdr_bytes e (egress_fh e v)) STORE_FLAGS
                          else (0, w_skb w));
               w = w\<lparr>w_skb := s\<rparr>
      in if rc < 0 then DROP K CNT_EGRESS_DROP_HELPER w
      else let l4off = (if eg_is_frag v then l4off + FRAG_HLEN else l4off);
               (rc, s) = bpf_skb_store_bytes K (w_skb w) 12 (st16 e (bpf_htons e ETH_P_IPV6)) 0;
               w = w\<lparr>w_skb := s\<rparr>
      in if rc < 0 then DROP K CNT_EGRESS_DROP_HELPER w
      else Next (l4off, w))"

text \<open>The pseudo-header difference for TCP and UDP.\<close>

definition egress_diff :: "byte_order \<Rightarrow> kernel \<Rightarrow> rodata \<Rightarrow> eg \<Rightarrow> u32" where
  "egress_diff e K R v =
     word_of_int (bpf_csum_diff K (st32 e (eg_saddr v) @ st32 e (eg_daddr v))
       (in6_bytes e (ip6_saddr (egress_h6 e R v)) @ in6_bytes e (ip6_daddr (egress_h6 e R v))) 0)"

definition egress_pseudo6 :: "byte_order \<Rightarrow> rodata \<Rightarrow> eg \<Rightarrow> u8 \<Rightarrow> pseudo6" where
  "egress_pseudo6 e R v nh =
     \<lparr>p6_saddr = prefix_copy (ip6_saddr (egress_h6 e R v)),
      p6_daddr = prefix_copy (ip6_daddr (egress_h6 e R v)),
      p6_len = bpf_htonl e (word_of_nat (eg_l4len v)), p6_nexthdr = bpf_htonl e (ucast nh)\<rparr>"

definition egress_done :: "kernel \<Rightarrow> world \<Rightarrow> unit step" where
  "egress_done K w = Return TC_ACT_OK (count K CNT_EGRESS_TRANSLATED w)"

text \<open>A checksum update that falls through to \<open>done\<close>.\<close>

definition egress_csum_replace :: "kernel \<Rightarrow> nat \<Rightarrow> u32 \<Rightarrow> u64 \<Rightarrow> world \<Rightarrow> unit step" where
  "egress_csum_replace K off diff flags w =
     (let (rc, s) = bpf_l4_csum_replace K (w_skb w) off 0 (ucast diff) flags;
          w = w\<lparr>w_skb := s\<rparr>
      in if rc < 0 then DROP K CNT_EGRESS_DROP_HELPER w else egress_done K w)"

definition egress_tcp :: "kernel \<Rightarrow> nat \<Rightarrow> u32 \<Rightarrow> world \<Rightarrow> unit step" where
  "egress_tcp K l4off diff w = egress_csum_replace K (l4off + 16) diff BPF_F_PSEUDO_HDR w"

definition egress_p4 :: "byte_order \<Rightarrow> eg \<Rightarrow> bytes" where
  "egress_p4 e v =
     st32 e (eg_saddr v) @ st32 e (eg_daddr v) @ st32 e (bpf_htonl e (ucast IPPROTO_UDP)) @
     st32 e (bpf_htonl e (word_of_nat (eg_l4len v)))"

definition egress_udp :: "byte_order \<Rightarrow> kernel \<Rightarrow> rodata \<Rightarrow> eg \<Rightarrow> nat \<Rightarrow> u32 \<Rightarrow> world \<Rightarrow> unit step" where
  "egress_udp e K R v l4off diff w =
     (let (rc, b) = bpf_skb_load_bytes K (w_skb w) (l4off + 6) 2
      in if rc < 0 then DROP K CNT_EGRESS_DROP_TRUNCATED w
      else if ld16 e (b ! 0) (b ! 1) \<noteq> 0
      then egress_csum_replace K (l4off + 6) diff (BPF_F_PSEUDO_HDR OR BPF_F_MARK_MANGLED_0) w
      else if csum_fold (word_of_int (bpf_csum_diff K [] (egress_p4 e v) 0)) = 0
      then egress_csum_replace K (l4off + 6) diff
             (BPF_F_PSEUDO_HDR OR BPF_F_MARK_MANGLED_0 OR BPF_F_MARK_ENFORCE) w
      else if eg_is_frag v then DROP K CNT_EGRESS_DROP_FRAG_NO_CSUM w
      else let seed = word_of_int (bpf_csum_diff K [] (pseudo6_bytes e (egress_pseudo6 e R v IPPROTO_UDP)) 0)
      in case udp_full_csum K (w_skb w) l4off (eg_l4len v) seed of
           None \<Rightarrow> DROP K CNT_EGRESS_DROP_TOO_BIG w
         | Some full \<Rightarrow>
             let (rc, s) = bpf_skb_store_bytes K (w_skb w) (l4off + 6) (st16 e full) STORE_FLAGS;
                 w = w\<lparr>w_skb := s\<rparr>
             in if rc < 0 then DROP K CNT_EGRESS_DROP_HELPER w else egress_done K w)"

definition egress_icmp :: "byte_order \<Rightarrow> kernel \<Rightarrow> rodata \<Rightarrow> eg \<Rightarrow> nat \<Rightarrow> world \<Rightarrow> unit step" where
  "egress_icmp e K R v l4off w =
     (let (rc, tc) = bpf_skb_load_bytes K (w_skb w) l4off 2
      in if rc < 0 then DROP K CNT_EGRESS_DROP_TRUNCATED w
      else let t4 = tc ! 0
      in case (if t4 = ICMP_ECHO then Some ICMPV6_ECHO_REQUEST
               else if t4 = ICMP_ECHOREPLY then Some ICMPV6_ECHO_REPLY else None) of
           None \<Rightarrow> DROP K CNT_EGRESS_DROP_ICMP_UNSUPPORTED w
         | Some t6 \<Rightarrow>
             let diff = word_of_int (bpf_csum_diff K [] (pseudo6_bytes e (egress_pseudo6 e R v IPPROTO_ICMPV6)) 0);
                 oldw = bpf_htonl e (push_bit 24 (ucast t4) OR push_bit 16 (ucast (tc ! 1)));
                 neww = bpf_htonl e (push_bit 24 (ucast t6) OR push_bit 16 (ucast (tc ! 1)));
                 diff = word_of_int (bpf_csum_diff K (st32 e oldw) (st32 e neww) diff);
                 (rc, s) = bpf_skb_store_bytes K (w_skb w) l4off [t6] STORE_FLAGS;
                 w = w\<lparr>w_skb := s\<rparr>
             in if rc < 0 then DROP K CNT_EGRESS_DROP_HELPER w
                else egress_csum_replace K (l4off + 2) diff BPF_F_PSEUDO_HDR w)"

definition egress_l4 :: "byte_order \<Rightarrow> kernel \<Rightarrow> rodata \<Rightarrow> eg \<Rightarrow> nat \<Rightarrow> world \<Rightarrow> unit step" where
  "egress_l4 e K R v l4off w =
     (if \<not> eg_first v then egress_done K w
      else let diff = egress_diff e K R v
      in if eg_proto v = IPPROTO_TCP then egress_tcp K l4off diff w
      else if eg_proto v = IPPROTO_UDP then egress_udp e K R v l4off diff w
      else if eg_proto v = IPPROTO_ICMP then egress_icmp e K R v l4off w
      else egress_done K w)"

definition clat_egress :: "byte_order \<Rightarrow> kernel \<Rightarrow> rodata \<Rightarrow> world \<Rightarrow> unit step" where
  "clat_egress e K R w =
     bind_step (egress_parse e K R w) (\<lambda>(v, w).
     bind_step (egress_options K v w) (\<lambda>w.
     bind_step (egress_reshape e K R v w) (\<lambda>(l4off, w).
     egress_l4 e K R v l4off w)))"

end
