(* ===== verification/Egress.thy ===== *)
theory Egress
  imports Egress_Model
begin

text \<open>
  How a run of \<open>clat_egress\<close> ends: it always returns a verdict, without a direct access
  outside the linear part of the buffer, and its counters account for the verdict.
\<close>

section \<open>Verdicts and counters\<close>

definition egress_drops :: "clat_counter set" where
  "egress_drops =
     {CNT_EGRESS_DROP_TRUNCATED, CNT_EGRESS_DROP_BAD_SRC, CNT_EGRESS_DROP_MCAST,
      CNT_EGRESS_DROP_SRCROUTE, CNT_EGRESS_DROP_FRAG_NO_CSUM, CNT_EGRESS_DROP_ICMP_UNSUPPORTED,
      CNT_EGRESS_DROP_TOO_BIG, CNT_EGRESS_DROP_HELPER}"

lemma egress_parse_counters:
  "egress_parse e K R w = Next (v, w') \<Longrightarrow> clat_counters w' = clat_counters w"
  by (auto simp: egress_parse_def DROP_def Let_def split: if_splits option.splits prod.splits)

lemma egress_options_counters: "egress_options K v w = Next w' \<Longrightarrow> clat_counters w' = clat_counters w"
  by (auto simp: egress_options_def DROP_def Let_def split: if_splits prod.splits)

lemma egress_reshape_counters:
  "egress_reshape e K R v w = Next (l4off, w') \<Longrightarrow> clat_counters w' = clat_counters w"
  by (auto simp: egress_reshape_def DROP_def Let_def split: if_splits prod.splits)

text \<open>Direct packet access stays inside \<open>data .. data_end\<close>, for every kernel.\<close>

lemma egress_parse_no_fault: "egress_parse e K R w \<noteq> Fault"
  by (auto simp: egress_parse_def lin_read_def DROP_def Let_def split: if_splits option.splits prod.splits)

context bpf_kernel
begin

lemma egress_parse_outcome:
  assumes "counters_ok w"
  shows "outcome CNT_EGRESS_TRANSLATED egress_drops w (egress_parse e K R w)"
  unfolding egress_parse_def Let_def case_prod_beta
  by (intro outcome_If outcome_option DROP_outcome outcome_pass outcome_Next)
    (simp_all add: assms lin_read_def egress_drops_def)

lemma egress_options_outcome:
  assumes "counters_ok w" and "clat_counters u = clat_counters w"
  shows "outcome CNT_EGRESS_TRANSLATED egress_drops w (egress_options K v u)"
  using assms
  by (auto simp: egress_options_def Let_def egress_drops_def split: prod.splits intro!: DROP_outcome)

lemma egress_reshape_outcome:
  assumes "counters_ok w" and "clat_counters u = clat_counters w"
  shows "outcome CNT_EGRESS_TRANSLATED egress_drops w (egress_reshape e K R v u)"
  using assms
  by (auto simp: egress_reshape_def Let_def egress_drops_def split: prod.splits intro!: DROP_outcome)

lemma egress_csum_replace_outcome:
  assumes "counters_ok w" and "clat_counters u = clat_counters w"
  shows "outcome CNT_EGRESS_TRANSLATED egress_drops w (egress_csum_replace K off diff flags u)"
  using assms
  by (auto simp: egress_csum_replace_def egress_done_def Let_def egress_drops_def
      split: prod.splits intro!: DROP_outcome done_outcome)

lemma egress_udp_outcome:
  assumes "counters_ok w" and "clat_counters u = clat_counters w"
  shows "outcome CNT_EGRESS_TRANSLATED egress_drops w (egress_udp e K R v l4off diff u)"
  using assms
  by (auto simp: egress_udp_def egress_done_def Let_def egress_drops_def
      split: prod.splits option.splits intro!: DROP_outcome done_outcome egress_csum_replace_outcome [unfolded egress_drops_def])

lemma egress_icmp_outcome:
  assumes "counters_ok w" and "clat_counters u = clat_counters w"
  shows "outcome CNT_EGRESS_TRANSLATED egress_drops w (egress_icmp e K R v l4off u)"
  using assms
  by (auto simp: egress_icmp_def Let_def egress_drops_def
      split: prod.splits option.splits intro!: DROP_outcome egress_csum_replace_outcome [unfolded egress_drops_def])

lemma egress_l4_outcome:
  assumes "counters_ok w" and "clat_counters u = clat_counters w"
  shows "outcome CNT_EGRESS_TRANSLATED egress_drops w (egress_l4 e K R v l4off u)"
  using assms
  by (simp add: egress_l4_def egress_tcp_def Let_def egress_done_def done_outcome
      egress_csum_replace_outcome egress_udp_outcome egress_icmp_outcome)

lemma clat_egress_outcome:
  assumes "counters_ok w"
  shows "outcome CNT_EGRESS_TRANSLATED egress_drops w (clat_egress e K R w)"
  unfolding clat_egress_def
  using assms
  by (auto intro!: bind_step_outcome egress_parse_outcome egress_options_outcome
        egress_reshape_outcome egress_l4_outcome
      simp: egress_parse_counters egress_options_counters egress_reshape_counters)

end

lemma egress_l4_returns: "\<exists>a w'. egress_l4 e K R v l4off w = Return a w'"
  by (auto simp: egress_l4_def egress_tcp_def egress_udp_def egress_icmp_def egress_csum_replace_def
      egress_done_def DROP_def Let_def split: prod.splits option.splits)

lemma clat_egress_returns: "\<exists>a w'. clat_egress e K R w = Return a w'"
proof -
  have o: "egress_options K v u \<noteq> Fault" and r: "egress_reshape e K R v u \<noteq> Fault" for v u
    by (auto simp: egress_options_def egress_reshape_def DROP_def Let_def split: prod.splits)
  show ?thesis
    unfolding clat_egress_def
    using egress_parse_no_fault [of e K R w] egress_l4_returns [of e K R] o r
    by (auto simp: bind_step_def split: step.splits prod.splits)
qed

sublocale bpf_kernel < egress_prog:
  tc_program "clat_egress e K R" CNT_EGRESS_TRANSLATED egress_drops for R
proof unfold_locales
  show "finite egress_drops" "CNT_EGRESS_TRANSLATED \<notin> egress_drops"
    "CNT_EGRESS_TRANSLATED \<noteq> CNT_MAX" "CNT_MAX \<notin> egress_drops"
    by (simp_all add: egress_drops_def)
qed (simp_all add: clat_egress_returns clat_egress_outcome)

context bpf_kernel
begin

lemmas egress_run_total = egress_prog.run_total

lemmas egress_run_other = egress_prog.run_other

end

section \<open>Properties\<close>

text \<open>
  (C23) For every kernel, packet and configuration \<open>clat_egress\<close> returns a
  verdict: no direct packet access of it leaves \<open>data .. data_end\<close>, and no stage gets stuck.
\<close>

theorem egress_returns: "\<exists>a w'. clat_egress e K R w = Return a w'"
  by (rule clat_egress_returns)

text \<open>
  (C21) Whatever helpers fail, a packet \<open>clat_egress\<close> drops counts one drop
  reason of the egress side, a packet it translates counts one translation, and any other
  packet leaves with its bytes and every counter unchanged.
\<close>

theorem egress_accounts:
  assumes "bpf_kernel e K" and "counters_ok w"
  shows "outcome CNT_EGRESS_TRANSLATED egress_drops w (clat_egress e K R w)"
  by (rule bpf_kernel.clat_egress_outcome [OF assms])

definition idle_world :: world where
  "idle_world = \<lparr>w_skb = \<lparr>pkt = replicate 14 0, linear = 14, protocol = ETH_P_IP, ip_summed = CHECKSUM_NONE\<rparr>,
                 clat_counters = counters_init\<rparr>"

theorem egress_accounts_witness:
  "outcome CNT_EGRESS_TRANSLATED egress_drops idle_world
     (clat_egress LITTLE_ENDIAN (ref_kernel LITTLE_ENDIAN)
        \<lparr>CLAT_PREFIX = in6_of LITTLE_ENDIAN (replicate 16 0), POD_IP6 = in6_of LITTLE_ENDIAN (replicate 16 1),
         POD_IP4 = 2, ERR_IP4 = 3\<rparr> idle_world)"
  by (rule egress_accounts [OF ref.bpf_kernel_axioms]) (simp add: idle_world_def counters_init_def)

end
