(* ===== verification/Egress_Spec.thy ===== *)
theory Egress_Spec
  imports Egress
begin

text \<open>
  What \<open>clat_egress\<close> does to the bytes of a packet. The stage lemmas say what each stage
  leaves in the buffer when it lets the packet through; they hold for every kernel that keeps
  the contract \<open>bpf_kernel\<close>, with any helper call free to fail. The reference is the header
  translation of RFC 7915 on bytes in network order.
\<close>

section \<open>Stages\<close>

text \<open>The IPv4 header of a frame, the locals it gives, and the frames that are accepted.\<close>

definition hdr4 :: "byte_order \<Rightarrow> bytes \<Rightarrow> iphdr" where
  "hdr4 e p = iphdr_of e (window ETH_HLEN IP4_HLEN p)"

definition hdr4_len :: "iphdr \<Rightarrow> nat" where
  "hdr4_len h = unat (ip_ihl h) * 4"

definition egress_vars :: "byte_order \<Rightarrow> bytes \<Rightarrow> eg" where
  "egress_vars e p =
     (let h = hdr4 e p; frag_off = bpf_ntohs e (ip_frag_off h)
      in \<lparr>eg_saddr = ip_saddr h, eg_daddr = ip_daddr h, eg_tos = ip_tos h, eg_ttl = ip_ttl h,
          eg_proto = ip_protocol h, eg_id = ip_id h, eg_frag_off = frag_off,
          eg_is_frag = (frag_off AND (IP_MF OR IP_OFFSET) \<noteq> 0),
          eg_mf = (frag_off AND IP_MF \<noteq> 0), eg_first = (frag_off AND IP_OFFSET = 0),
          eg_optlen = hdr4_len h - IP4_HLEN,
          eg_l4len = unat (bpf_ntohs e (ip_tot_len h)) - hdr4_len h\<rparr>)"

definition is_ip4_frame :: "byte_order \<Rightarrow> bytes \<Rightarrow> bool" where
  "is_ip4_frame e p \<longleftrightarrow> ld16 e (p ! 12) (p ! 13) = bpf_htons e ETH_P_IP"

definition egress_accepts :: "byte_order \<Rightarrow> rodata \<Rightarrow> bytes \<Rightarrow> bool" where
  "egress_accepts e R p \<longleftrightarrow>
     (let h = hdr4 e p; v = egress_vars e p
      in 34 \<le> length p \<and> is_ip4_frame e p \<and> ip_version h = 4 \<and> IP4_HLEN \<le> hdr4_len h \<and>
         ip_saddr h = POD_IP4 R \<and>
         ip_daddr h AND bpf_htonl e 0xf0000000 \<noteq> bpf_htonl e 0xe0000000 \<and>
         ip_daddr h \<noteq> bpf_htonl e 0xffffffff \<and>
         hdr4_len h \<le> unat (bpf_ntohs e (ip_tot_len h)) \<and>
         \<not> (eg_is_frag v \<and> eg_proto v = IPPROTO_ICMP))"

text \<open>Two buffers that differ only in their linear part.\<close>

definition same_packet :: "world \<Rightarrow> world \<Rightarrow> bool" where
  "same_packet w w' \<longleftrightarrow>
     pkt (w_skb w') = pkt (w_skb w) \<and> protocol (w_skb w') = protocol (w_skb w) \<and>
     is_partial (w_skb w') = is_partial (w_skb w)"

context bpf_kernel
begin

lemma egress_parse_Next:
  assumes "egress_parse e K R w = Next (v, w')" and "skb_wf (w_skb w)"
  shows "same_packet w w' \<and> v = egress_vars e (pkt (w_skb w)) \<and> egress_accepts e R (pkt (w_skb w))"
proof -
  let ?p = "pkt (w_skb w)"
  obtain lin s where el: "ensure_linear K (w_skb w) 34 = (lin, s)" by fastforce
  have s: "pkt s = ?p" "protocol s = protocol (w_skb w)" "is_partial s = is_partial (w_skb w)"
    and wf: "linear s \<le> length ?p"
    using ensure_linear_frame [OF el] ensure_linear_wf [OF el assms(2)]
    by (simp_all add: is_partial_def skb_wf_def)
  have "14 \<le> linear (w_skb w)" using assms(1) by (simp add: egress_parse_def split: if_splits)
  then have "14 \<le> length ?p" using assms(2) by (simp add: skb_wf_def)
  then have et: "window 12 2 ?p ! 0 = ?p ! 12" "window 12 2 ?p ! Suc 0 = ?p ! 13"
    by (simp_all add: nth_window)
  from assms(1) el s wf show ?thesis
    unfolding egress_parse_def
    by (simp add: Let_def lin_read_def et DROP_def same_packet_def egress_accepts_def
        is_ip4_frame_def egress_vars_def hdr4_def hdr4_len_def split: if_splits) auto
qed

lemma room_flags: "has_flag ROOM_FLAGS BPF_F_ADJ_ROOM_NO_CSUM_RESET"
  by (simp add: const_defs flag_defs)

lemma egress_options_Next:
  assumes "egress_options K v w = Next w'" and "protocol (w_skb w) = ETH_P_IP"
    and "34 \<le> length (pkt (w_skb w))"
  shows "34 + eg_optlen v \<le> length (pkt (w_skb w)) \<and>
    pkt (w_skb w') = take 34 (pkt (w_skb w)) @ drop (34 + eg_optlen v) (pkt (w_skb w)) \<and>
    protocol (w_skb w') = ETH_P_IP \<and> is_partial (w_skb w') = is_partial (w_skb w) \<and>
    (eg_optlen v \<noteq> 0 \<longrightarrow> \<not> ip4_has_source_route K (w_skb w) 34 (eg_optlen v))"
proof (cases "eg_optlen v = 0")
  case True
  with assms show ?thesis by (simp add: egress_options_def)
next
  case False
  obtain rc s where ad: "bpf_skb_adjust_room K (w_skb w) (- int (eg_optlen v)) BPF_ADJ_ROOM_NET ROOM_FLAGS = (rc, s)"
    by fastforce
  with assms(1) False have rc: "\<not> rc < 0" and w': "w_skb w' = s"
    and sr: "\<not> ip4_has_source_route K (w_skb w) 34 (eg_optlen v)"
    by (auto simp: egress_options_def DROP_def Let_def split: if_splits)
  have "net_base (w_skb w) = 34" by (simp add: net_base_def assms(2))
  then show ?thesis
    using adjust_shrink [of "w_skb w" "eg_optlen v" ROOM_FLAGS s] rc assms(2) False sr
    unfolding w' ad by (simp add: room_flags)
qed


lemma store_ok:
  "bpf_skb_store_bytes K s off bs flags = (rc, s') \<Longrightarrow> \<not> rc < 0 \<Longrightarrow>
     off + length bs \<le> length (pkt s) \<and> pkt s' = overwrite off bs (pkt s) \<and>
     protocol s' = protocol s \<and> is_partial s' = is_partial s"
  using store_bytes [of s off bs flags] by simp

lemma egress_frag_room:
  assumes "(if frag then bpf_skb_adjust_room K s (int FRAG_HLEN) BPF_ADJ_ROOM_NET ROOM_FLAGS else (0, s)) = (rc, s')"
    and "\<not> rc < 0" and "protocol s = ETH_P_IPV6"
  shows "length (pkt s') = length (pkt s) + (if frag then 8 else 0) \<and>
    take 54 (pkt s') = take 54 (pkt s) \<and>
    drop (54 + (if frag then 8 else 0)) (pkt s') = drop 54 (pkt s) \<and>
    protocol s' = ETH_P_IPV6 \<and> is_partial s' = is_partial s"
proof (cases frag)
  case True
  with assms(1) have ad: "bpf_skb_adjust_room K s (int 8) BPF_ADJ_ROOM_NET ROOM_FLAGS = (rc, s')" by simp
  have "net_base s = 54" using assms(3) by (simp add: net_base_def eth_p_defs)
  with adjust_grow [of s 8 ROOM_FLAGS s', unfolded ad] assms(2,3) True show ?thesis
    by (simp add: room_flags)
qed (use assms in auto)

lemma egress_reshape_Next:
  assumes "egress_reshape e K R v w = Next (l4off, w')" and "protocol (w_skb w) = ETH_P_IP"
    and "34 \<le> length (pkt (w_skb w))"
  shows "pkt (w_skb w') = take 12 (pkt (w_skb w)) @ net16 ETH_P_IPV6 @ ipv6hdr_bytes e (egress_h6 e R v) @
      (if eg_is_frag v then frag_hdr_bytes e (egress_fh e v) else []) @ drop 34 (pkt (w_skb w)) \<and>
    l4off = (if eg_is_frag v then 62 else 54) \<and> protocol (w_skb w') = ETH_P_IPV6 \<and>
    is_partial (w_skb w') = is_partial (w_skb w)"
proof -
  let ?p = "pkt (w_skb w)"
  obtain r1 s1 where c1: "bpf_skb_change_proto K (w_skb w) (bpf_htons e ETH_P_IPV6) 0 = (r1, s1)" by fastforce
  obtain r2 s2 where c2: "(if eg_is_frag v then bpf_skb_adjust_room K s1 (int FRAG_HLEN) BPF_ADJ_ROOM_NET ROOM_FLAGS
      else (0, s1)) = (r2, s2)" by fastforce
  obtain r3 s3 where c3: "bpf_skb_store_bytes K s2 14 (ipv6hdr_bytes e (egress_h6 e R v)) STORE_FLAGS = (r3, s3)"
    by fastforce
  obtain r4 s4 where c4: "(if eg_is_frag v then bpf_skb_store_bytes K s3 54 (frag_hdr_bytes e (egress_fh e v)) STORE_FLAGS
      else (0, s3)) = (r4, s4)" by fastforce
  obtain r5 s5 where c5: "bpf_skb_store_bytes K s4 12 (st16 e (bpf_htons e ETH_P_IPV6)) 0 = (r5, s5)"
    by fastforce
  have ok: "\<not> r1 < 0" "\<not> r2 < 0" "\<not> r3 < 0" "\<not> r4 < 0" "\<not> r5 < 0"
    and w': "w_skb w' = s5" and l: "l4off = (if eg_is_frag v then 62 else 54)"
    using assms(1) c1 c2 c3 c4 c5
    by (auto simp: egress_reshape_def DROP_def Let_def split: if_splits)
  have s1: "length (pkt s1) = length ?p + 20" "take 14 (pkt s1) = take 14 ?p" "drop 54 (pkt s1) = drop 34 ?p"
    "protocol s1 = ETH_P_IPV6" "is_partial s1 = is_partial (w_skb w)"
    using change_proto_46 [of "w_skb w" s1, unfolded c1] ok(1) assms(2,3) by simp_all
  let ?n = "if eg_is_frag v then 8 else 0 :: nat"
  have s2: "length (pkt s2) = length ?p + 20 + ?n" "take 14 (pkt s2) = take 14 ?p"
    "drop (54 + ?n) (pkt s2) = drop 34 ?p" "protocol s2 = ETH_P_IPV6" "is_partial s2 = is_partial (w_skb w)"
    using egress_frag_room [OF c2 ok(2) s1(4)] take_eq_mono [of 54 "pkt s2" "pkt s1" 14] s1 by simp_all
  have s3: "pkt s3 = overwrite 14 (ipv6hdr_bytes e (egress_h6 e R v)) (pkt s2)"
    "protocol s3 = ETH_P_IPV6" "is_partial s3 = is_partial (w_skb w)"
    using store_ok [OF c3 ok(3)] s2 by simp_all
  have s4: "pkt s4 = (if eg_is_frag v then overwrite 54 (frag_hdr_bytes e (egress_fh e v)) (pkt s3) else pkt s3)"
    "protocol s4 = ETH_P_IPV6" "is_partial s4 = is_partial (w_skb w)"
    using store_ok [of s3 54 _ STORE_FLAGS r4 s4] c4 ok(4) s3 by (auto split: if_splits)
  have s5: "pkt s5 = overwrite 12 (net16 ETH_P_IPV6) (pkt s4)"
    "protocol s5 = ETH_P_IPV6" "is_partial s5 = is_partial (w_skb w)"
    using store_ok [OF c5 ok(5)] s4 by simp_all
  have t: "take 12 (pkt s2) = take 12 ?p"
    using take_eq_mono [OF s2(2), of 12] by simp
  have "pkt s5 = take 12 ?p @ net16 ETH_P_IPV6 @ ipv6hdr_bytes e (egress_h6 e R v) @
      (if eg_is_frag v then frag_hdr_bytes e (egress_fh e v) else []) @ drop 34 ?p"
    using s2 assms(3) by (cases "eg_is_frag v") (simp_all add: s5 s4 s3 t overwrite_def)
  with l w' s5 show ?thesis by simp
qed

end

section \<open>The header translation of RFC 7915\<close>

text \<open>The fields of an IPv4 frame, from its bytes in network order.\<close>

definition v4_hlen :: "bytes \<Rightarrow> nat" where
  "v4_hlen p = unat (p ! 14 AND 0xf) * 4"

definition v4_tot_len :: "bytes \<Rightarrow> nat" where
  "v4_tot_len p = unat (join16 (p ! 16) (p ! 17))"

definition v4_frag_word :: "bytes \<Rightarrow> u16" where
  "v4_frag_word p = join16 (p ! 20) (p ! 21)"

definition v4_is_frag :: "bytes \<Rightarrow> bool" where
  "v4_is_frag p \<longleftrightarrow> v4_frag_word p AND 0x3fff \<noteq> 0"

definition v4_first :: "bytes \<Rightarrow> bool" where
  "v4_first p \<longleftrightarrow> v4_frag_word p AND 0x1fff = 0"

definition v4_payload :: "bytes \<Rightarrow> bytes" where
  "v4_payload p = drop (14 + v4_hlen p) p"

definition v4_l4len :: "bytes \<Rightarrow> nat" where
  "v4_l4len p = v4_tot_len p - v4_hlen p"

text \<open>
  The IPv6 header of the translation: traffic class from the type of service, flow label
  zero, hop limit from the time to live, the pod's own address as source, and the IPv4
  destination behind the /96 (RFC 6052) as destination. A fragment gets a fragment header
  with the same offset, flag and identification.
\<close>

definition rfc_next_header :: "u8 \<Rightarrow> u8" where
  "rfc_next_header pr = (if pr = 1 then 58 else pr)"

definition rfc_src6 :: "byte_order \<Rightarrow> rodata \<Rightarrow> bytes" where
  "rfc_src6 e R = in6_bytes e (POD_IP6 R)"

definition rfc_dst6 :: "byte_order \<Rightarrow> rodata \<Rightarrow> bytes \<Rightarrow> bytes" where
  "rfc_dst6 e R p = take 12 (in6_bytes e (CLAT_PREFIX R)) @ window 30 4 p"

definition rfc_frag_header :: "bytes \<Rightarrow> bytes" where
  "rfc_frag_header p =
     (if v4_is_frag p
      then [rfc_next_header (p ! 23), 0] @
           net16 (push_bit 3 (v4_frag_word p AND 0x1fff) OR (if v4_frag_word p AND 0x2000 \<noteq> 0 then 1 else 0)) @
           [0, 0, p ! 18, p ! 19]
      else [])"

definition rfc_header6 :: "byte_order \<Rightarrow> rodata \<Rightarrow> bytes \<Rightarrow> bytes" where
  "rfc_header6 e R p =
     [0x60 OR drop_bit 4 (p ! 15), push_bit 4 (p ! 15), 0, 0] @
     net16 (word_of_nat (v4_l4len p + length (rfc_frag_header p))) @
     [if v4_is_frag p then 44 else rfc_next_header (p ! 23), p ! 22] @
     rfc_src6 e R @ rfc_dst6 e R p @ rfc_frag_header p"

definition rfc_frame6 :: "byte_order \<Rightarrow> rodata \<Rightarrow> bytes \<Rightarrow> bytes \<Rightarrow> bytes" where
  "rfc_frame6 e R p l4 = take 12 p @ [0x86, 0xdd] @ rfc_header6 e R p @ l4"

lemma length_rfc_frag_header: "length (rfc_frag_header p) = (if v4_is_frag p then 8 else 0)"
  by (simp add: rfc_frag_header_def)

lemma in6_bytes_take_12:
  "in6_bytes e (a\<lparr>u6_addr32_3 := x\<rparr>) = take 12 (in6_bytes e a) @ st32 e x"
  by (simp add: in6_bytes_def)

lemma window_list4: "i + 4 \<le> length p \<Longrightarrow> window i 4 p = [p ! i, p ! (i + 1), p ! (i + 2), p ! (i + 3)]"
  using nths_window [of i 4 p] by (simp add: upt_rec numeral_3_eq_3)

lemma net16_bytes: "net16 (join16 a b) = [a, b]"
  by (simp add: net16_def)

lemma traffic_class_word:
  "push_bit 24 (ucast v) OR push_bit 20 (ucast t) =
     join32 (join16 (v OR drop_bit 4 t) (push_bit 4 t)) (join16 0 0)"
  for v t :: u8
  unfolding join32_def join16_def
  by (rule bit_eqI) (auto simp: bit_simps)

lemma traffic_class_bytes:
  "net32 (0x60000000 OR push_bit 20 (ucast t)) = [0x60 OR drop_bit 4 t, push_bit 4 t, 0, 0]"
  for t :: u8
  using traffic_class_word [of "0x60" t] by (simp add: net32_def)

lemma ident_bytes: "net32 (ucast (join16 a b)) = [0, 0, a, b]"
proof -
  have "(ucast w :: u32) = join32 0 w" for w :: u16
    unfolding join32_def by simp
  then show ?thesis by (simp add: net32_def)
qed

lemma hdr4_fields:
  assumes "34 \<le> length p"
  shows "ip_tos (hdr4 e p) = p ! 15" "ip_tot_len (hdr4 e p) = ld16 e (p ! 16) (p ! 17)"
    "ip_id (hdr4 e p) = ld16 e (p ! 18) (p ! 19)" "ip_frag_off (hdr4 e p) = ld16 e (p ! 20) (p ! 21)"
    "ip_ttl (hdr4 e p) = p ! 22" "ip_protocol (hdr4 e p) = p ! 23"
    "ip_saddr (hdr4 e p) = ld32 e (p ! 26) (p ! 27) (p ! 28) (p ! 29)"
    "ip_daddr (hdr4 e p) = ld32 e (p ! 30) (p ! 31) (p ! 32) (p ! 33)"
    "hdr4_len (hdr4 e p) = v4_hlen p"
  using assms by (simp_all add: hdr4_def iphdr_of_def hdr4_len_def v4_hlen_def nth_window)

lemma egress_vars_fields:
  assumes "34 \<le> length p"
  shows "eg_tos (egress_vars e p) = p ! 15" "eg_ttl (egress_vars e p) = p ! 22"
    "eg_proto (egress_vars e p) = p ! 23" "eg_frag_off (egress_vars e p) = v4_frag_word p"
    "eg_is_frag (egress_vars e p) = v4_is_frag p" "eg_first (egress_vars e p) = v4_first p"
    "eg_mf (egress_vars e p) = (v4_frag_word p AND 0x2000 \<noteq> 0)"
    "eg_optlen (egress_vars e p) = v4_hlen p - 20" "eg_l4len (egress_vars e p) = v4_l4len p"
    "eg_saddr (egress_vars e p) = ld32 e (p ! 26) (p ! 27) (p ! 28) (p ! 29)"
    "eg_daddr (egress_vars e p) = ld32 e (p ! 30) (p ! 31) (p ! 32) (p ! 33)"
    "eg_id (egress_vars e p) = ld16 e (p ! 18) (p ! 19)"
  by (simp_all add: egress_vars_def Let_def hdr4_fields [OF assms] v4_frag_word_def v4_is_frag_def
      v4_first_def v4_l4len_def v4_tot_len_def const_defs)

lemma header6_bytes:
  assumes "34 \<le> length p" and v: "v = egress_vars e p"
  shows "ipv6hdr_bytes e (egress_h6 e R v) @ (if eg_is_frag v then frag_hdr_bytes e (egress_fh e v) else []) =
    rfc_header6 e R p"
  using assms(1)
  by (simp add: v ipv6hdr_bytes_def egress_h6_def frag_hdr_bytes_def egress_fh_def egress_nh6_def
      egress_vars_fields rfc_header6_def rfc_frag_header_def rfc_src6_def rfc_dst6_def rfc_next_header_def
      in6_bytes_take_12 window_list4 traffic_class_bytes ident_bytes const_defs)

definition v6_l4off :: "bytes \<Rightarrow> nat" where
  "v6_l4off p = 54 + length (rfc_frag_header p)"

lemma rfc_frame6_append: "rfc_frame6 e R p l4 = rfc_frame6 e R p [] @ l4"
  by (simp add: rfc_frame6_def)

lemma length_rfc_frame6: "12 \<le> length p \<Longrightarrow> 34 \<le> length p \<Longrightarrow> length (rfc_frame6 e R p []) = v6_l4off p"
  by (simp add: rfc_frame6_def rfc_header6_def rfc_src6_def rfc_dst6_def v6_l4off_def)

section \<open>Reaching the transport stage\<close>

text \<open>A run that translates its packet, from a well-formed IPv4 buffer.\<close>

definition egress_translates :: "byte_order \<Rightarrow> kernel \<Rightarrow> rodata \<Rightarrow> world \<Rightarrow> world \<Rightarrow> bool" where
  "egress_translates e K R w w' \<longleftrightarrow>
     skb_wf (w_skb w) \<and> protocol (w_skb w) = ETH_P_IP \<and> counters_ok w \<and>
     clat_egress e K R w = Return TC_ACT_OK w' \<and>
     clat_counters w' = tick CNT_EGRESS_TRANSLATED (clat_counters w)"

lemma tick_neq: "length cs = unat (counter_index CNT_MAX) \<Longrightarrow> k \<noteq> CNT_MAX \<Longrightarrow> tick k cs \<noteq> cs"
  using counter_index_bound [of k] by (auto simp: tick_def list_eq_iff_nth_eq)

lemma egress_parse_OK: "egress_parse e K R w = Return TC_ACT_OK w' \<Longrightarrow> w' = w"
  by (auto simp: egress_parse_def DROP_def Let_def split: if_splits option.splits prod.splits)

lemma egress_options_OK: "egress_options K v w \<noteq> Return TC_ACT_OK w'"
  by (auto simp: egress_options_def DROP_def Let_def split: if_splits prod.splits)

lemma egress_reshape_OK: "egress_reshape e K R v w \<noteq> Return TC_ACT_OK w'"
  by (auto simp: egress_reshape_def DROP_def Let_def split: if_splits prod.splits)

context bpf_kernel
begin

lemma egress_reaches_l4:
  assumes "egress_translates e K R w w'"
  defines "p \<equiv> pkt (w_skb w)"
  obtains u where "egress_l4 e K R (egress_vars e p) (v6_l4off p) u = Return TC_ACT_OK w'"
    and "pkt (w_skb u) = rfc_frame6 e R p (v4_payload p)" and "egress_accepts e R p"
    and "14 + v4_hlen p \<le> length p" and "is_partial (w_skb u) = is_partial (w_skb w)"
    and "v4_hlen p \<noteq> 20 \<longrightarrow> \<not> option_walk (window 34 (v4_hlen p - 20) p)"
proof -
  have wf: "skb_wf (w_skb w)" "protocol (w_skb w) = ETH_P_IP"
    and run: "clat_egress e K R w = Return TC_ACT_OK w'" and "clat_counters w' \<noteq> clat_counters w"
    using assms(1) tick_neq by (auto simp: egress_translates_def)
  then obtain v w1 w2 l4off u where st: "egress_parse e K R w = Next (v, w1)"
      "egress_options K v w1 = Next w2" "egress_reshape e K R v w2 = Next (l4off, u)"
      "egress_l4 e K R v l4off u = Return TC_ACT_OK w'"
    by (auto simp: clat_egress_def bind_step_Return egress_options_OK egress_reshape_OK dest: egress_parse_OK)
  have w1: "pkt (w_skb w1) = p" "protocol (w_skb w1) = ETH_P_IP" "is_partial (w_skb w1) = is_partial (w_skb w)"
    and v: "v = egress_vars e p" and acc: "egress_accepts e R p"
    using egress_parse_Next [OF st(1) wf(1)] wf(2) by (simp_all add: same_packet_def p_def)
  then have p: "34 \<le> length p" and "20 \<le> hdr4_len (hdr4 e p)"
    by (simp_all add: egress_accepts_def Let_def)
  then have h: "20 \<le> v4_hlen p" by (simp add: hdr4_fields)
  have o: "eg_optlen v = v4_hlen p - 20" using p by (simp add: v egress_vars_fields)
  have w2: "14 + v4_hlen p \<le> length p" "pkt (w_skb w2) = take 34 p @ v4_payload p"
    "protocol (w_skb w2) = ETH_P_IP" "is_partial (w_skb w2) = is_partial (w_skb w)"
    and sr: "v4_hlen p \<noteq> 20 \<longrightarrow> \<not> ip4_has_source_route K (w_skb w1) 34 (v4_hlen p - 20)"
    using egress_options_Next [OF st(2) w1(2)] p h by (simp_all add: o w1 v4_payload_def)
  have u: "pkt (w_skb u) = rfc_frame6 e R p (v4_payload p)" "l4off = v6_l4off p"
    "is_partial (w_skb u) = is_partial (w_skb w)"
    using egress_reshape_Next [OF st(3) w2(3)] p w2 header6_bytes [OF p v, of R, symmetric]
    by (simp_all add: rfc_frame6_def net16_def eth_p_defs v6_l4off_def length_rfc_frag_header
        v egress_vars_fields hi8_def lo8_def)
  have "v4_hlen p \<noteq> 20 \<longrightarrow> \<not> option_walk (window 34 (v4_hlen p - 20) p)"
    using no_source_route_walk [of "w_skb w1" 34 "v4_hlen p - 20"] sr w2(1) h by (simp add: w1)
  with that [of u] st(4) u acc w2(1) show thesis by (simp add: v)
qed

end

end
