(* ===== verification/Egress_L4.thy ===== *)
theory Egress_L4
  imports Egress_Spec
begin

text \<open>
  The transport stage of \<open>clat_egress\<close>: what it changes behind the IPv6 headers, and that
  the checksums it leaves verify against the IPv6 pseudo-header. A segment may be the first
  fragment of a longer one; \<open>rest\<close> then stands for the bytes of the other fragments.
\<close>

section \<open>Pseudo-headers\<close>

definition rfc_pseudo4 :: "bytes \<Rightarrow> nat \<Rightarrow> bytes" where
  "rfc_pseudo4 p n = window 26 8 p @ [0, p ! 23] @ net16 (word_of_nat n)"

definition rfc_pseudo6 :: "byte_order \<Rightarrow> rodata \<Rightarrow> bytes \<Rightarrow> nat \<Rightarrow> u8 \<Rightarrow> bytes" where
  "rfc_pseudo6 e R p n nh = rfc_src6 e R @ rfc_dst6 e R p @ net32 (word_of_nat n) @ [0, 0, 0, nh]"

lemma even_pseudo:
  "34 \<le> length p \<Longrightarrow> even (length (rfc_pseudo4 p n))"
  "34 \<le> length p \<Longrightarrow> even (length (rfc_pseudo6 e R p n nh))"
  by (simp_all add: rfc_pseudo4_def rfc_pseudo6_def rfc_src6_def rfc_dst6_def)

lemma nsum_net16_pad: "nsum e (net32 (word_of_nat n)) = nsum e (net16 (word_of_nat n))" if "n < 65536"
proof -
  have "unat (word_of_nat n :: u32) = n" "unat (word_of_nat n :: u16) = n"
    using that by (simp_all add: unsigned_of_nat take_bit_eq_mod)
  then have "(word_of_nat n :: u32) = ucast (word_of_nat n :: u16)"
    using that by (simp add: word_unat_eq_iff unsigned_ucast_eq take_bit_eq_mod)
  also have "\<dots> = ucast (join16 (hi8 (word_of_nat n)) (lo8 (word_of_nat n)))" by simp
  finally show ?thesis by (simp only: ident_bytes) (simp add: net16_def)
qed

lemma nsum_pseudo4:
  assumes "34 \<le> length p" and "n < 65536"
  shows "nsum e (rfc_pseudo4 p n) =
    nsum e (window 26 8 p) + unat (ld16 e 0 (p ! 23)) + nsum e (net16 (word_of_nat n))"
  using assms by (simp add: rfc_pseudo4_def nsum_append)

lemma nsum_pseudo6:
  assumes "34 \<le> length p" and "n < 65536"
  shows "nsum e (rfc_pseudo6 e R p n nh) =
    nsum e (rfc_src6 e R @ rfc_dst6 e R p) + nsum e (net16 (word_of_nat n)) + unat (ld16 e 0 nh)"
proof -
  have l: "even (length (rfc_src6 e R @ rfc_dst6 e R p))" "even (length (rfc_src6 e R))"
      "even (length (rfc_dst6 e R p))"
    using assms(1) by (simp_all add: rfc_src6_def rfc_dst6_def)
  have n: "nsum e (net32 (word_of_nat n) @ [0, 0, 0, nh]) = nsum e (net16 (word_of_nat n)) + unat (ld16 e 0 nh)"
    using assms(2) by (simp add: nsum_append nsum_net16_pad)
  show ?thesis using l by (simp add: rfc_pseudo6_def nsum_append n)
qed

lemma ld16_nonzero: "b \<noteq> 0 \<Longrightarrow> unat (ld16 e 0 b) \<noteq> 0"
  by (cases e) (simp_all add: unat_join16 unsigned_eq_0_iff)

lemma nsum_pseudo6_nz:
  "34 \<le> length p \<Longrightarrow> n < 65536 \<Longrightarrow> nh \<noteq> 0 \<Longrightarrow> nsum e (rfc_pseudo6 e R p n nh) \<noteq> 0"
  using ld16_nonzero [of nh e] by (simp add: nsum_pseudo6)

lemma nsum_pseudo4_nz:
  "34 \<le> length p \<Longrightarrow> n < 65536 \<Longrightarrow> p ! 23 \<noteq> 0 \<Longrightarrow> nsum e (rfc_pseudo4 p n) \<noteq> 0"
  using ld16_nonzero [of "p ! 23" e] by (simp add: nsum_pseudo4)

lemma v4_l4len_less: "v4_l4len p < 65536"
  using unat_u16_less [of "join16 (p ! 16) (p ! 17)"] by (simp add: v4_l4len_def v4_tot_len_def)

lemma window_list8:
  "i + 8 \<le> length p \<Longrightarrow> window i 8 p = window i 4 p @ window (i + 4) 4 p"
  using take_add [of 4 4 "drop i p"] by (simp add: window_def add.commute)

lemma icmp_word_bytes:
  "net32 (push_bit 24 (ucast t) OR push_bit 16 (ucast c)) = [t, c, 0, 0]" for t c :: u8
proof -
  have "push_bit 24 (ucast t) OR push_bit 16 (ucast c) = join32 (join16 t c) (join16 0 0)"
    unfolding join32_def join16_def by (rule bit_eqI) (auto simp: bit_simps)
  then show ?thesis by (simp add: net32_def)
qed

lemma uint_ucast_u64: "uint (ucast (d :: u32) :: u64) = uint d"
  by (simp add: uint_up_ucast is_up)

context bpf_kernel
begin

text \<open>The address difference the program feeds to \<open>bpf_l4_csum_replace\<close>.\<close>

lemma egress_diff_eqc:
  assumes p: "34 \<le> length p" and n: "n < 65536"
  shows "eqc (uint (egress_diff e K R (egress_vars e p)) + int (nsum e (rfc_pseudo4 p n)))
             (int (nsum e (rfc_pseudo6 e R p n (p ! 23))))"
proof -
  let ?v = "egress_vars e p"
  have f: "st32 e (eg_saddr ?v) @ st32 e (eg_daddr ?v) = window 26 8 p"
    using p by (simp add: egress_vars_fields window_list8 window_list4)
  have t: "in6_bytes e (ip6_saddr (egress_h6 e R ?v)) @ in6_bytes e (ip6_daddr (egress_h6 e R ?v)) =
      rfc_src6 e R @ rfc_dst6 e R p"
    using p by (simp add: egress_h6_def egress_vars_fields rfc_src6_def rfc_dst6_def in6_bytes_take_12 window_list4)
  have "eqc (uint (egress_diff e K R ?v) + int (nsum e (window 26 8 p)))
            (uint (0 :: u32) + int (nsum e (rfc_src6 e R @ rfc_dst6 e R p)))"
    unfolding egress_diff_def f t
    by (rule csum_diff_wsum) (use p in \<open>simp_all add: rfc_src6_def rfc_dst6_def\<close>)
  then have "eqc (uint (egress_diff e K R ?v) + int (nsum e (window 26 8 p)) +
                  int (unat (ld16 e 0 (p ! 23)) + nsum e (net16 (word_of_nat n))))
                 (int (nsum e (rfc_src6 e R @ rfc_dst6 e R p)) +
                  int (unat (ld16 e 0 (p ! 23)) + nsum e (net16 (word_of_nat n))))"
    by (intro eqc_add) simp_all
  then show ?thesis
    by (simp add: nsum_pseudo4 [OF p n] nsum_pseudo6 [OF p n] algebra_simps)
qed

section \<open>Updating the checksum field\<close>

lemma csum_replace_OK:
  assumes "egress_csum_replace K (length pre + k) diff flags u = Return TC_ACT_OK w'"
    and "pkt (w_skb u) = pre @ l4" and "flags AND 0xf = 0" and "has_flag flags BPF_F_PSEUDO_HDR"
  obtains c' where "pkt (w_skb w') = pre @ overwrite k (st16 e c') l4" and "k + 2 \<le> length l4"
    and "l4_update (is_partial (w_skb u)) flags (ld16 e (l4 ! k) (l4 ! Suc k)) (ucast diff) c'"
proof -
  obtain rc s where c: "bpf_l4_csum_replace K (w_skb u) (length pre + k) 0 (ucast diff) flags = (rc, s)"
    by fastforce
  have rc: "\<not> rc < 0" and w': "w_skb w' = s"
    using assms(1) by (auto simp: egress_csum_replace_def c egress_done_def DROP_def Let_def split: if_splits)
  obtain c' where "pkt s = overwrite (length pre + k) (st16 e c') (pre @ l4)" "length pre + k + 2 \<le> length (pre @ l4)"
    "l4_update (is_partial (w_skb u)) flags (ld16 e ((pre @ l4) ! (length pre + k)) ((pre @ l4) ! Suc (length pre + k)))
       (ucast diff) c'"
    using l4_csum [of "w_skb u" "length pre + k" "ucast diff" flags s, unfolded c] rc assms(2-4) by auto
  then show thesis
    using that [of c'] w' by (simp add: overwrite_append_right nth_append)
qed

lemma tcp_flags:
  "BPF_F_PSEUDO_HDR AND 0xf = 0" "has_flag BPF_F_PSEUDO_HDR BPF_F_PSEUDO_HDR"
  "\<not> has_flag BPF_F_PSEUDO_HDR BPF_F_MARK_MANGLED_0"
  by (simp_all add: flag_defs)

lemma udp_flags:
  "(BPF_F_PSEUDO_HDR OR BPF_F_MARK_MANGLED_0) AND 0xf = 0"
  "has_flag (BPF_F_PSEUDO_HDR OR BPF_F_MARK_MANGLED_0) BPF_F_PSEUDO_HDR"
  "has_flag (BPF_F_PSEUDO_HDR OR BPF_F_MARK_MANGLED_0) BPF_F_MARK_MANGLED_0"
  "\<not> has_flag (BPF_F_PSEUDO_HDR OR BPF_F_MARK_MANGLED_0) BPF_F_MARK_ENFORCE"
  "(BPF_F_PSEUDO_HDR OR BPF_F_MARK_MANGLED_0 OR BPF_F_MARK_ENFORCE) AND 0xf = 0"
  "has_flag (BPF_F_PSEUDO_HDR OR BPF_F_MARK_MANGLED_0 OR BPF_F_MARK_ENFORCE) BPF_F_PSEUDO_HDR"
  "has_flag (BPF_F_PSEUDO_HDR OR BPF_F_MARK_MANGLED_0 OR BPF_F_MARK_ENFORCE) BPF_F_MARK_MANGLED_0"
  "has_flag (BPF_F_PSEUDO_HDR OR BPF_F_MARK_MANGLED_0 OR BPF_F_MARK_ENFORCE) BPF_F_MARK_ENFORCE"
  by (simp_all add: flag_defs)

text \<open>A checksum that is valid for the IPv4 pseudo-header is carried over to the IPv6 one.\<close>

lemma window2_st16: "k + 2 \<le> length xs \<Longrightarrow> window k 2 xs = st16 e (ld16 e (xs ! k) (xs ! Suc k))"
  using nths_window [of k 2 xs] by (simp add: upt_rec)

lemma carry_valid:
  assumes p: "34 \<le> length p" and n: "n < 65536" and nh: "p ! 23 \<noteq> 0"
    and k: "even k" "k + 2 \<le> m" "m \<le> length l4"
    and c': "eqc (uint c' + uint (egress_diff e K R (egress_vars e p))) (uint (ld16 e (l4 ! k) (l4 ! Suc k)))"
    and ok: "inet_ok (rfc_pseudo4 p n @ take m l4 @ rest)"
  shows "inet_ok (rfc_pseudo6 e R p n (p ! 23) @ take m (overwrite k (st16 e c') l4) @ rest)"
proof -
  have "inet_ok (rfc_pseudo6 e R p n (p ! 23) @ overwrite k (st16 e c') (take m l4 @ rest))"
  proof (rule inet_ok_update [OF ok])
    show "window k 2 (take m l4 @ rest) = st16 e (ld16 e (l4 ! k) (l4 ! Suc k))"
      using k window2_st16 [of k l4] by (simp add: window_def drop_take)
  qed (use k c' p n nh nsum_pseudo6_nz egress_diff_eqc [OF p n] even_pseudo in simp_all)
  moreover have "overwrite k (st16 e c') (take m l4 @ rest) = take m (overwrite k (st16 e c') l4) @ rest"
    using k by (simp add: overwrite_def drop_take min_def)
  ultimately show ?thesis by simp
qed

section \<open>The transport stage by protocol\<close>

lemma egress_at_l4:
  assumes "egress_translates e K R w w'" and "p = pkt (w_skb w)"
  obtains u where "egress_l4 e K R (egress_vars e p) (length (rfc_frame6 e R p [])) u = Return TC_ACT_OK w'"
    and "pkt (w_skb u) = rfc_frame6 e R p [] @ v4_payload p" and "egress_accepts e R p"
    and "is_partial (w_skb u) = is_partial (w_skb w)" and "34 \<le> length p"
proof (rule egress_reaches_l4 [OF assms(1)], fold assms(2))
  fix u assume "egress_l4 e K R (egress_vars e p) (v6_l4off p) u = Return TC_ACT_OK w'"
    "pkt (w_skb u) = rfc_frame6 e R p (v4_payload p)" "egress_accepts e R p"
    "is_partial (w_skb u) = is_partial (w_skb w)"
  then show thesis
    using that [of u] by (simp add: egress_accepts_def Let_def length_rfc_frame6 rfc_frame6_append [of e R p "v4_payload p"])
qed

lemma egress_tcp_frame:
  assumes "egress_translates e K R w w'" and "p = pkt (w_skb w)" and "p ! 23 = 6" and "v4_first p"
  obtains c' where "pkt (w_skb w') = rfc_frame6 e R p [] @ overwrite 16 (st16 e c') (v4_payload p)"
    and "18 \<le> length (v4_payload p)" and "34 \<le> length p"
    and "l4_update (is_partial (w_skb w)) BPF_F_PSEUDO_HDR
           (ld16 e (v4_payload p ! 16) (v4_payload p ! 17)) (ucast (egress_diff e K R (egress_vars e p))) c'"
proof (rule egress_at_l4 [OF assms(1,2)])
  fix u assume u: "egress_l4 e K R (egress_vars e p) (length (rfc_frame6 e R p [])) u = Return TC_ACT_OK w'"
    "pkt (w_skb u) = rfc_frame6 e R p [] @ v4_payload p"
    "is_partial (w_skb u) = is_partial (w_skb w)" "34 \<le> length p"
  have "egress_csum_replace K (length (rfc_frame6 e R p []) + 16) (egress_diff e K R (egress_vars e p))
      BPF_F_PSEUDO_HDR u = Return TC_ACT_OK w'"
    using u(1,4) assms(3,4) by (simp add: egress_l4_def egress_tcp_def egress_vars_fields Let_def)
  then show thesis
    by (rule csum_replace_OK [OF _ u(2) tcp_flags(1,2)]) (use that u(3,4) in simp)
qed

lemma egress_other_frame:
  assumes "egress_translates e K R w w'" and "p = pkt (w_skb w)" and "\<not> v4_first p \<or> p ! 23 \<notin> {1, 6, 17}"
  shows "pkt (w_skb w') = rfc_frame6 e R p [] @ v4_payload p"
proof (rule egress_at_l4 [OF assms(1,2)])
  fix u assume u: "egress_l4 e K R (egress_vars e p) (length (rfc_frame6 e R p [])) u = Return TC_ACT_OK w'"
    "pkt (w_skb u) = rfc_frame6 e R p [] @ v4_payload p" "34 \<le> length p"
  then have "egress_done K u = Return TC_ACT_OK w'"
    using assms(3) by (auto simp: egress_l4_def egress_vars_fields Let_def split: if_splits)
  with u(2) show ?thesis by (auto simp: egress_done_def)
qed

lemma egress_p4_sum:
  assumes "34 \<le> length p" and "p ! 23 = 17" and "egress_accepts e R p"
  shows "nsum e (egress_p4 e (egress_vars e p)) = nsum e (rfc_pseudo4 p (v4_l4len p))"
proof -
  have n: "v4_l4len p < 65536" by (rule v4_l4len_less)
  have "st32 e (eg_saddr (egress_vars e p)) @ st32 e (eg_daddr (egress_vars e p)) = window 26 8 p"
    using assms(1) by (simp add: egress_vars_fields window_list8 window_list4)
  then have "egress_p4 e (egress_vars e p) = window 26 8 p @ net32 17 @ net32 (word_of_nat (v4_l4len p))"
    using assms(1) by (simp add: egress_p4_def egress_vars_fields)
  moreover have "nsum e (net32 17) = unat (ld16 e 0 17)" by (simp add: net32_def hi16_def lo16_def hi8_def lo8_def)
  ultimately show ?thesis
    using assms(1,2) n by (simp add: nsum_append nsum_pseudo4 nsum_net16_pad)
qed

lemma udp_p4_fold:
  assumes "34 \<le> length p" and "p ! 23 = 17" and "egress_accepts e R p"
  shows "csum_fold (word_of_int (bpf_csum_diff K [] (egress_p4 e (egress_vars e p)) 0)) = 0 \<longleftrightarrow>
    eqc (int (nsum e (rfc_pseudo4 p (v4_l4len p)))) 0"
proof -
  let ?b = "egress_p4 e (egress_vars e p)"
  let ?s = "word_of_int (bpf_csum_diff K [] ?b 0) :: u32"
  have l: "length ?b = 16" by (simp add: egress_p4_def)
  have s: "eqc (uint ?s) (int (nsum e (rfc_pseudo4 p (v4_l4len p))))"
    using csum_diff_wsum [of "[]" ?b 0] egress_p4_sum [OF assms] l by simp
  have "nsum e ?b \<noteq> 0"
    unfolding egress_p4_sum [OF assms] by (rule nsum_pseudo4_nz) (simp_all add: assms v4_l4len_less)
  then have "?s \<noteq> 0" using csum_diff_zero [of ?b 0] l by fastforce
  moreover have "eqc (uint ?s) 0 \<longleftrightarrow> eqc (int (nsum e (rfc_pseudo4 p (v4_l4len p)))) 0"
    using eqc_trans [OF s] eqc_trans [OF eqc_sym [OF s]] by blast
  ultimately show ?thesis by (simp only: csum_fold_zero_iff simp_thms)
qed

text \<open>The three ways in which the UDP stage lets a packet through.\<close>

lemma egress_udp_OK:
  assumes "egress_udp e K R v off d u = Return TC_ACT_OK w'"
  defines "c \<equiv> ld16 e (pkt (w_skb u) ! (off + 6)) (pkt (w_skb u) ! (off + 7))"
  obtains (given) "off + 8 \<le> length (pkt (w_skb u))" and "c \<noteq> 0"
      and "egress_csum_replace K (off + 6) d (BPF_F_PSEUDO_HDR OR BPF_F_MARK_MANGLED_0) u = Return TC_ACT_OK w'"
    | (zero_sum) "off + 8 \<le> length (pkt (w_skb u))" and "c = 0"
      and "csum_fold (word_of_int (bpf_csum_diff K [] (egress_p4 e v) 0)) = 0"
      and "egress_csum_replace K (off + 6) d (BPF_F_PSEUDO_HDR OR BPF_F_MARK_MANGLED_0 OR BPF_F_MARK_ENFORCE) u =
             Return TC_ACT_OK w'"
    | (full) c' where "off + 8 \<le> length (pkt (w_skb u))" and "c = 0" and "\<not> eg_is_frag v"
      and "csum_fold (word_of_int (bpf_csum_diff K [] (egress_p4 e v) 0)) \<noteq> 0"
      and "udp_full_csum K (w_skb u) off (eg_l4len v)
             (word_of_int (bpf_csum_diff K [] (pseudo6_bytes e (egress_pseudo6 e R v 17)) 0)) = Some c'"
      and "pkt (w_skb w') = overwrite (off + 6) (st16 e c') (pkt (w_skb u))"
proof -
  obtain rc b where ld: "bpf_skb_load_bytes K (w_skb u) (off + 6) 2 = (rc, b)" by fastforce
  have "\<not> rc < 0" using assms(1) by (auto simp: egress_udp_def ld DROP_def)
  from load_ok [OF ld this] have l8: "off + 8 \<le> length (pkt (w_skb u))" and b: "ld16 e (b ! 0) (b ! Suc 0) = c"
    by (simp_all add: c_def nth_window add.commute)
  have run: "egress_udp e K R v off d u = Return TC_ACT_OK w'" by (rule assms(1))
  show thesis
  proof (cases "c = 0")
    case False
    with run \<open>\<not> rc < 0\<close> given l8 show ?thesis by (simp add: egress_udp_def ld b)
  next
    case c0: True
    show ?thesis
    proof (cases "csum_fold (word_of_int (bpf_csum_diff K [] (egress_p4 e v) 0)) = 0")
      case True
      with c0 run \<open>\<not> rc < 0\<close> zero_sum l8 show ?thesis by (simp add: egress_udp_def ld b)
    next
      case False
      with c0 run \<open>\<not> rc < 0\<close> l8 show ?thesis
        by (auto simp: egress_udp_def ld b DROP_def egress_done_def Let_def
            split: if_splits option.splits prod.splits dest!: store_ok intro!: full)
    qed
  qed
qed

lemma egress_udp_frame:
  assumes "egress_translates e K R w w'" and "p = pkt (w_skb w)" and "p ! 23 = 17" and "v4_first p"
  defines "l4 \<equiv> v4_payload p"
  defines "c \<equiv> ld16 e (l4 ! 6) (l4 ! 7)"
  obtains (update) c' flags where "pkt (w_skb w') = rfc_frame6 e R p [] @ overwrite 6 (st16 e c') l4"
      and "8 \<le> length l4" and "34 \<le> length p" and "has_flag flags BPF_F_MARK_MANGLED_0"
      and "l4_update (is_partial (w_skb w)) flags c (ucast (egress_diff e K R (egress_vars e p))) c'"
      and "c = 0 \<longrightarrow> has_flag flags BPF_F_MARK_ENFORCE \<and> eqc (int (nsum e (rfc_pseudo4 p (v4_l4len p)))) 0"
    | (full) c' s where "pkt (w_skb w') = rfc_frame6 e R p [] @ overwrite 6 (st16 e c') l4"
      and "8 \<le> length l4" and "34 \<le> length p" and "c = 0"
      and "\<not> eqc (int (nsum e (rfc_pseudo4 p (v4_l4len p)))) 0" and "\<not> v4_is_frag p"
      and "pkt s = rfc_frame6 e R p [] @ l4"
      and "udp_full_csum K s (length (rfc_frame6 e R p [])) (v4_l4len p)
             (word_of_int (bpf_csum_diff K [] (pseudo6_bytes e (egress_pseudo6 e R (egress_vars e p) 17)) 0)) = Some c'"
proof (rule egress_at_l4 [OF assms(1,2)])
  let ?v = "egress_vars e p" and ?d = "egress_diff e K R (egress_vars e p)" and ?h = "rfc_frame6 e R p []"
  fix u assume u: "egress_l4 e K R ?v (length ?h) u = Return TC_ACT_OK w'"
    "pkt (w_skb u) = ?h @ v4_payload p" "egress_accepts e R p"
    "is_partial (w_skb u) = is_partial (w_skb w)" and p: "34 \<le> length p"
  have q: "pkt (w_skb u) = ?h @ l4" by (simp add: u(2) l4_def)
  have c: "ld16 e (pkt (w_skb u) ! (length ?h + 6)) (pkt (w_skb u) ! (length ?h + 7)) = c"
    by (simp add: c_def q)
  note z = udp_p4_fold [OF p assms(3) u(3)]
  have "egress_udp e K R ?v (length ?h) ?d u = Return TC_ACT_OK w'"
    using u(1) assms(3,4) p by (simp add: egress_l4_def egress_vars_fields Let_def)
  then show thesis
  proof (cases rule: egress_udp_OK)
    case given
    show ?thesis
      by (rule csum_replace_OK [OF given(3) q udp_flags(1,2)])
        (use update [OF _ _ p udp_flags(3)] u(4) given(2) c in \<open>simp add: c_def\<close>)
  next
    case zero_sum
    show ?thesis
      by (rule csum_replace_OK [OF zero_sum(4) q udp_flags(5,6)])
        (use update [OF _ _ p udp_flags(7)] u(4) zero_sum(3) z udp_flags(8) in \<open>simp add: c_def\<close>)
  next
    case (full c')
    have "8 \<le> length l4" using full(1) by (simp add: q)
    moreover from this have "pkt (w_skb w') = ?h @ overwrite 6 (st16 e c') l4"
      using full(6) by (simp add: q overwrite_append_right)
    ultimately show ?thesis
      using that(2) [of c' "w_skb u"] full(2-5) p z c q by (simp add: egress_vars_fields)
  qed
qed

text \<open>The difference of two type/code words, as a change of two bytes.\<close>

lemma csum_diff_type:
  "eqc (uint (word_of_int (bpf_csum_diff K
          (st32 e (bpf_htonl e (push_bit 24 (ucast t) OR push_bit 16 (ucast c))))
          (st32 e (bpf_htonl e (push_bit 24 (ucast t') OR push_bit 16 (ucast c)))) s) :: u32) +
        int (nsum e [t, c])) (uint s + int (nsum e [t', c]))" for t t' c :: u8
proof -
  let ?w = "\<lambda>t. bpf_htonl e (push_bit 24 (ucast t) OR push_bit 16 (ucast c))"
  have n: "nsum e (st32 e (?w t)) = nsum e [t, c]" for t by (simp add: icmp_word_bytes)
  show ?thesis
    using csum_diff_wsum [of "st32 e (?w t)" "st32 e (?w t')" s, unfolded n length_st32]
    by (simp del: st32_htonl)
qed

lemma egress_icmp_OK:
  assumes "egress_icmp e K R v (length h) u = Return TC_ACT_OK w'" and "pkt (w_skb u) = h @ l4"
  obtains t6 u' diff where "(l4 ! 0, t6) \<in> {(ICMP_ECHO, 128), (ICMP_ECHOREPLY, 129)}"
    and "pkt (w_skb u') = h @ overwrite 0 [t6] l4" and "is_partial (w_skb u') = is_partial (w_skb u)"
    and "eqc (uint diff + int (nsum e [l4 ! 0, l4 ! 1]))
             (int (nsum e (pseudo6_bytes e (egress_pseudo6 e R v 58))) + int (nsum e [t6, l4 ! 1]))"
    and "egress_csum_replace K (length h + 2) diff BPF_F_PSEUDO_HDR u' = Return TC_ACT_OK w'"
proof -
  let ?ps = "pseudo6_bytes e (egress_pseudo6 e R v 58)"
  let ?w = "\<lambda>t. bpf_htonl e (push_bit 24 (ucast t) OR push_bit 16 (ucast (l4 ! 1)))"
  let ?d0 = "word_of_int (bpf_csum_diff K [] ?ps 0) :: u32"
  obtain rc tc where ld: "bpf_skb_load_bytes K (w_skb u) (length h) 2 = (rc, tc)" by fastforce
  have rc: "\<not> rc < 0" using assms(1) by (auto simp: egress_icmp_def ld DROP_def)
  from load_ok [OF ld rc] have l2: "2 \<le> length l4" and tc: "tc ! 0 = l4 ! 0" "tc ! 1 = l4 ! 1"
    by (simp_all add: assms(2) nth_window nth_append)
  let ?sel = "if l4 ! 0 = ICMP_ECHO then Some (128 :: u8) else if l4 ! 0 = ICMP_ECHOREPLY then Some 129 else None"
  have "l4 ! 0 = ICMP_ECHO \<or> l4 ! 0 = ICMP_ECHOREPLY"
    using assms(1) rc by (rule_tac ccontr) (simp add: egress_icmp_def ld tc DROP_def Let_def)
  then obtain t6 where sel: "?sel = Some t6" by (cases "l4 ! 0 = ICMP_ECHO") auto
  then have t6: "(l4 ! 0, t6) \<in> {(ICMP_ECHO, 128), (ICMP_ECHOREPLY, 129)}" by (auto split: if_splits)
  define d where "d = (word_of_int (bpf_csum_diff K (st32 e (?w (l4 ! 0))) (st32 e (?w t6)) ?d0) :: u32)"
  obtain rc2 s where st: "bpf_skb_store_bytes K (w_skb u) (length h) [t6] STORE_FLAGS = (rc2, s)" by fastforce
  have rc2: "\<not> rc2 < 0" and run: "egress_csum_replace K (length h + 2) d BPF_F_PSEUDO_HDR (u\<lparr>w_skb := s\<rparr>) = Return TC_ACT_OK w'"
    using assms(1) rc unfolding egress_icmp_def ld Let_def case_prod_conv tc
    by (auto simp: sel st d_def DROP_def split: if_splits)
  have s: "pkt s = h @ overwrite 0 [t6] l4" "is_partial s = is_partial (w_skb u)"
    using store_ok [OF st rc2] overwrite_append_right [of 0 "[t6]" l4 h] l2 by (simp_all add: assms(2))
  have "eqc (uint ?d0) (int (nsum e ?ps))" using csum_diff_wsum [of "[]" ?ps 0] by simp
  from eqc_add [OF this eqc_refl, of "int (nsum e [t6, l4 ! 1])"]
  have "eqc (uint d + int (nsum e [l4 ! 0, l4 ! 1])) (int (nsum e ?ps) + int (nsum e [t6, l4 ! 1]))"
    unfolding d_def by (rule eqc_trans [OF csum_diff_type])
  with that [of t6 "u\<lparr>w_skb := s\<rparr>" d] t6 s run show thesis by simp
qed

lemma egress_pseudo6_bytes:
  assumes "34 \<le> length p"
  shows "pseudo6_bytes e (egress_pseudo6 e R (egress_vars e p) nh) = rfc_pseudo6 e R p (v4_l4len p) nh"
proof -
  have "(ucast nh :: u32) = join32 (join16 0 0) (join16 0 nh)"
    unfolding join32_def join16_def by (rule bit_eqI) (auto simp: bit_simps dest: bit_imp_le_length)
  then have "net32 (ucast nh) = [0, 0, 0, nh]" by (simp add: net32_def)
  with assms show ?thesis
    by (simp add: pseudo6_bytes_def egress_pseudo6_def egress_h6_def egress_vars_fields rfc_pseudo6_def
        rfc_src6_def rfc_dst6_def in6_bytes_take_12 window_list4)
qed

lemma egress_icmp_frame:
  assumes "egress_translates e K R w w'" and "p = pkt (w_skb w)" and "p ! 23 = 1"
  defines "l4 \<equiv> v4_payload p"
  obtains t6 c' and diff :: u32 where "(l4 ! 0, t6) \<in> {(ICMP_ECHO, 128), (ICMP_ECHOREPLY, 129)}"
    and "pkt (w_skb w') = rfc_frame6 e R p [] @ overwrite 2 (st16 e c') (overwrite 0 [t6] l4)"
    and "4 \<le> length l4" and "34 \<le> length p" and "\<not> v4_is_frag p"
    and "l4_update (is_partial (w_skb w)) BPF_F_PSEUDO_HDR (ld16 e (l4 ! 2) (l4 ! 3)) (ucast diff) c'"
    and "eqc (uint diff + int (nsum e [l4 ! 0, l4 ! 1]))
             (int (nsum e (rfc_pseudo6 e R p (v4_l4len p) 58)) + int (nsum e [t6, l4 ! 1]))"
proof (rule egress_at_l4 [OF assms(1,2)])
  let ?v = "egress_vars e p" and ?h = "rfc_frame6 e R p []"
  fix u assume u: "egress_l4 e K R ?v (length ?h) u = Return TC_ACT_OK w'"
    "pkt (w_skb u) = ?h @ v4_payload p" "egress_accepts e R p"
    "is_partial (w_skb u) = is_partial (w_skb w)" and p: "34 \<le> length p"
  have nf: "\<not> v4_is_frag p" using u(3) assms(3) p by (simp add: egress_accepts_def egress_vars_fields Let_def)
  have "v4_frag_word p AND 0x1fff = (v4_frag_word p AND 0x3fff) AND 0x1fff" by (simp add: and.assoc)
  with nf have "v4_first p" by (simp add: v4_is_frag_def v4_first_def)
  then have "egress_icmp e K R ?v (length ?h) u = Return TC_ACT_OK w'"
    using u(1) assms(3) p by (simp add: egress_l4_def egress_vars_fields Let_def)
  then show thesis
  proof (rule egress_icmp_OK [OF _ u(2)], fold l4_def)
    fix t6 u' and diff :: u32
    assume t: "(l4 ! 0, t6) \<in> {(ICMP_ECHO, 128), (ICMP_ECHOREPLY, 129)}"
      and q: "pkt (w_skb u') = ?h @ overwrite 0 [t6] l4" and pa: "is_partial (w_skb u') = is_partial (w_skb u)"
      and d: "eqc (uint diff + int (nsum e [l4 ! 0, l4 ! 1]))
          (int (nsum e (pseudo6_bytes e (egress_pseudo6 e R ?v 58))) + int (nsum e [t6, l4 ! 1]))"
      and run: "egress_csum_replace K (length ?h + 2) diff BPF_F_PSEUDO_HDR u' = Return TC_ACT_OK w'"
    show thesis
    proof (rule csum_replace_OK [OF run q tcp_flags(1,2)])
      fix c' assume c': "pkt (w_skb w') = ?h @ overwrite 2 (st16 e c') (overwrite 0 [t6] l4)"
        "2 + 2 \<le> length (overwrite 0 [t6] l4)"
        "l4_update (is_partial (w_skb u')) BPF_F_PSEUDO_HDR
           (ld16 e (overwrite 0 [t6] l4 ! 2) (overwrite 0 [t6] l4 ! Suc 2)) (ucast diff) c'"
      moreover have "overwrite 0 [t6] l4 ! 2 = l4 ! 2" "overwrite 0 [t6] l4 ! 3 = l4 ! 3" "4 \<le> length l4"
        using c'(2) by (simp_all add: overwrite_def nth_append numeral_2_eq_2 numeral_3_eq_3)
      ultimately show thesis
        using that [of t6 c' diff] t d p nf pa u(4) by (simp add: egress_pseudo6_bytes)
    qed
  qed
qed

lemma icmp_valid:
  assumes "inet_ok (take n l4)" and "4 \<le> n" and "n \<le> length l4" and "even (length ps)" and "nsum e ps \<noteq> 0"
    and "eqc (uint c' + uint d) (uint (ld16 e (l4 ! 2) (l4 ! 3)))"
    and "eqc (uint d + int (nsum e [l4 ! 0, l4 ! 1])) (int (nsum e ps) + int (nsum e [t, l4 ! 1]))"
  shows "inet_ok (ps @ take n (overwrite 2 (st16 e c') (overwrite 0 [t] l4)))"
proof -
  obtain a b xs m where l4: "l4 = a # b # xs" and n: "n = Suc (Suc m)"
    using assms(2,3) by (cases l4; cases "tl l4"; cases n; cases "n - 1") auto
  have "inet_ok ((ps @ [t, b]) @ overwrite 0 (st16 e c') (take m xs))"
  proof (rule inet_ok_update)
    show "inet_ok ([a, b] @ take m xs)" using assms(1) by (simp add: l4 n)
    show "window 0 2 (take m xs) = st16 e (ld16 e (l4 ! 2) (l4 ! 3))"
      using assms(2,3) window2_st16 [of 0 "take m xs"] by (simp add: l4 n)
  qed (use assms in \<open>simp_all add: l4 n nsum_append\<close>)
  moreover have "take n (overwrite 2 (st16 e c') (overwrite 0 [t] l4)) = [t, b] @ overwrite 0 (st16 e c') (take m xs)"
    using assms(2,3) by (simp add: l4 n overwrite_def drop_take numeral_2_eq_2)
  ultimately show ?thesis by simp
qed

end

end
