(* ===== verification/Egress_Live.thy ===== *)
theory Egress_Live
  imports Egress_L4
begin

text \<open>
  Progress of \<open>clat_egress\<close>: with a kernel that serves every valid call, a packet that
  passes the checks of the program is translated. \<open>egress_ready\<close> spells the checks out on
  the bytes of the packet.
\<close>

definition egress_l4_ready :: "byte_order \<Rightarrow> bytes \<Rightarrow> bool" where
  "egress_l4_ready e p \<longleftrightarrow>
     (let l4 = v4_payload p
      in if \<not> v4_first p then True
         else if p ! 23 = 6 then 18 \<le> length l4
         else if p ! 23 = 17 then
           8 \<le> length l4 \<and>
           (ld16 e (l4 ! 6) (l4 ! 7) \<noteq> 0 \<or> eqc (int (nsum e (rfc_pseudo4 p (v4_l4len p)))) 0 \<or>
            \<not> v4_is_frag p \<and> v4_l4len p \<le> 10240 \<and> v4_l4len p \<le> length l4)
         else if p ! 23 = 1 then 4 \<le> length l4 \<and> l4 ! 0 \<in> {ICMP_ECHO, ICMP_ECHOREPLY}
         else True)"

definition egress_ready :: "byte_order \<Rightarrow> rodata \<Rightarrow> world \<Rightarrow> bool" where
  "egress_ready e R w \<longleftrightarrow>
     (let p = pkt (w_skb w)
      in skb_wf (w_skb w) \<and> protocol (w_skb w) = ETH_P_IP \<and> 14 \<le> linear (w_skb w) \<and> counters_ok w \<and>
         egress_accepts e R p \<and> 14 + v4_hlen p \<le> length p \<and>
         (v4_hlen p = 20 \<or> \<not> option_walk (window 34 (v4_hlen p - 20) p)) \<and> egress_l4_ready e p)"

context bpf_kernel_live
begin

lemma egress_parse_live:
  assumes "skb_wf (w_skb w)" and "14 \<le> linear (w_skb w)" and "egress_accepts e R (pkt (w_skb w))"
  shows "\<exists>w1. egress_parse e K R w = Next (egress_vars e (pkt (w_skb w)), w1)"
proof -
  let ?p = "pkt (w_skb w)"
  have p: "34 \<le> length ?p" using assms(3) by (simp add: egress_accepts_def Let_def)
  then obtain s where el: "ensure_linear K (w_skb w) 34 = (True, s)"
    using ensure_linear_live [OF assms(1), of 34] by auto
  note f = ensure_linear_frame [OF el] and l = ensure_linear_True [OF el]
  have et: "window 12 2 ?p ! 0 = ?p ! 12" "window 12 2 ?p ! Suc 0 = ?p ! 13" using p by (simp_all add: nth_window)
  show ?thesis
    using assms(2,3) f l et el
    by (simp add: egress_parse_def Let_def lin_read_def egress_accepts_def is_ip4_frame_def
        egress_vars_def hdr4_def hdr4_len_def) blast
qed

lemma v4_hlen_range:
  obtains q where "v4_hlen p = q * 4" and "q < 16"
proof -
  have "p ! 14 AND 0xf = take_bit 4 (p ! 14)" by (simp only: take_bit_eq_mask) (simp add: mask_numeral)
  then have "unat (p ! 14 AND 0xf) < 16" by (simp only: unsigned_take_bit_eq) (simp add: take_bit_eq_mod)
  with that show thesis by (simp add: v4_hlen_def)
qed

lemma egress_options_live:
  assumes "protocol (w_skb w) = ETH_P_IP" and "pkt (w_skb w) = p" and "20 \<le> v4_hlen p"
    and "14 + v4_hlen p \<le> length p" and "v4_hlen p = 20 \<or> \<not> option_walk (window 34 (v4_hlen p - 20) p)"
    and "eg_optlen v = v4_hlen p - 20"
  shows "\<exists>w2. egress_options K v w = Next w2"
proof (cases "eg_optlen v = 0")
  case True
  then show ?thesis by (simp add: egress_options_def)
next
  case False
  let ?n = "v4_hlen p - 20"
  obtain q where q: "v4_hlen p = q * 4" "q < 16" by (rule v4_hlen_range)
  then have "?n = (q - 5) * 4" by simp
  with q False assms(3,6) have n: "4 \<le> ?n" "?n \<le> 40" "?n mod 4 = 0" by (simp_all only: mod_mult_self2_is_0) simp_all
  have "\<not> ip4_has_source_route K (w_skb w) 34 ?n"
    using source_route_eq_walk [OF n, of 34 "w_skb w"] assms False by simp
  moreover have "0 \<le> fst (bpf_skb_adjust_room K (w_skb w) (- int ?n) BPF_ADJ_ROOM_NET ROOM_FLAGS)"
    using n assms(1-4) by (intro adjust_shrink_live) (simp_all add: net_base_def)
  ultimately show ?thesis
    using False assms(6) by (auto simp: egress_options_def Let_def split: prod.splits)
qed

lemma egress_reshape_live:
  assumes "protocol (w_skb w) = ETH_P_IP" and "34 \<le> length (pkt (w_skb w))"
  shows "\<exists>l4off u. egress_reshape e K R v w = Next (l4off, u)"
proof -
  obtain r1 s1 where c1: "bpf_skb_change_proto K (w_skb w) (bpf_htons e ETH_P_IPV6) 0 = (r1, s1)" by fastforce
  have r1: "\<not> r1 < 0" using change_proto_46_live [OF assms] by (simp add: c1)
  have s1: "54 \<le> length (pkt s1)" "protocol s1 = ETH_P_IPV6"
    using change_proto_46 [of "w_skb w" s1, unfolded c1] r1 assms by simp_all
  obtain r2 s2 where c2: "(if eg_is_frag v then bpf_skb_adjust_room K s1 (int FRAG_HLEN) BPF_ADJ_ROOM_NET ROOM_FLAGS
      else (0, s1)) = (r2, s2)" by fastforce
  have nb: "net_base s1 = 54" using s1(2) by (simp add: net_base_def eth_p_defs)
  have r2: "\<not> r2 < 0"
    using c2 adjust_grow_live [of s1 8 ROOM_FLAGS] s1 nb by (cases "eg_is_frag v") simp_all
  have s2: "54 + (if eg_is_frag v then 8 else 0) \<le> length (pkt s2)"
    using egress_frag_room [OF c2 r2 s1(2)] s1 by simp
  obtain r3 s3 where c3: "bpf_skb_store_bytes K s2 14 (ipv6hdr_bytes e (egress_h6 e R v)) STORE_FLAGS = (r3, s3)"
    by fastforce
  have r3: "\<not> r3 < 0" using store_live [of 14 "ipv6hdr_bytes e (egress_h6 e R v)" s2 STORE_FLAGS] s2 c3 by simp
  have s3: "length (pkt s3) = length (pkt s2)" using store_ok [OF c3 r3] by simp
  obtain r4 s4 where c4: "(if eg_is_frag v then bpf_skb_store_bytes K s3 54 (frag_hdr_bytes e (egress_fh e v)) STORE_FLAGS
      else (0, s3)) = (r4, s4)" by fastforce
  have r4: "\<not> r4 < 0" and s4: "length (pkt s4) = length (pkt s2)"
    using store_live [of 54 "frag_hdr_bytes e (egress_fh e v)" s3 STORE_FLAGS]
      store_ok [of s3 54 "frag_hdr_bytes e (egress_fh e v)" STORE_FLAGS r4 s4] s2 s3 c4
    by (auto split: if_splits)
  obtain r5 s5 where c5: "bpf_skb_store_bytes K s4 12 (st16 e (bpf_htons e ETH_P_IPV6)) 0 = (r5, s5)"
    by fastforce
  have r5: "\<not> r5 < 0" using store_live [of 12 "st16 e (bpf_htons e ETH_P_IPV6)" s4 0] s2 s4 c5 by simp
  show ?thesis
    using r1 r2 r3 r4 r5 c2 c4 by (auto simp: egress_reshape_def c1 c3 c5 [simplified] Let_def split: if_splits)
qed

lemma csum_replace_live:
  assumes "even off" and "off + 2 \<le> length (pkt (w_skb u))" and "flags AND 0xf = 0"
  shows "\<exists>w'. egress_csum_replace K off d flags u = Return TC_ACT_OK w'"
  using l4_live [OF assms, of "ucast d"]
  by (auto simp: egress_csum_replace_def egress_done_def Let_def split: prod.splits)

lemma load_live_ok:
  assumes "0 < n" and "off + n \<le> length (pkt s)"
  shows "bpf_skb_load_bytes K s off n = (0, window off n (pkt s))"
  using load_live [OF assms] load_bytes [of s off n] load_code [of s off n]
  by (cases "bpf_skb_load_bytes K s off n") auto

lemma egress_icmp_live:
  assumes "pkt (w_skb u) = h @ l4" and "even (length h)" and "4 \<le> length l4"
    and "l4 ! 0 = ICMP_ECHO \<or> l4 ! 0 = ICMP_ECHOREPLY"
  shows "\<exists>w'. egress_icmp e K R v (length h) u = Return TC_ACT_OK w'"
proof -
  have ld: "bpf_skb_load_bytes K (w_skb u) (length h) 2 = (0, window 0 2 l4)"
    using load_live_ok [of 2 "length h" "w_skb u"] assms(1,3) by (simp add: window_def)
  have t: "window 0 2 l4 ! 0 = l4 ! 0" using assms(3) by (simp add: nth_window)
  have st: "0 \<le> fst (bpf_skb_store_bytes K (w_skb u) (length h) [t6] STORE_FLAGS)" for t6
    using store_live [of "length h" "[t6]" "w_skb u" STORE_FLAGS] assms(1,3) by simp
  have "\<exists>w'. egress_csum_replace K (length h + 2) d BPF_F_PSEUDO_HDR
      (u\<lparr>w_skb := snd (bpf_skb_store_bytes K (w_skb u) (length h) [t6] STORE_FLAGS)\<rparr>) = Return TC_ACT_OK w'" for d t6
    using store_bytes [OF st [of t6]] assms(1-3) tcp_flags(1)
    by (intro csum_replace_live) simp_all
  moreover have "\<not> fst (bpf_skb_store_bytes K (w_skb u) (length h) [t6] STORE_FLAGS) < 0" for t6
    using st [of t6] by simp
  ultimately show ?thesis
    using assms(4) by (simp add: egress_icmp_def ld t Let_def case_prod_beta) blast
qed

lemma egress_udp_live:
  assumes u: "pkt (w_skb u) = h @ v4_payload p" and h: "even (length h)" and p: "34 \<le> length p" "p ! 23 = 17"
    and rdy: "8 \<le> length (v4_payload p) \<and>
      (ld16 e (v4_payload p ! 6) (v4_payload p ! 7) \<noteq> 0 \<or> eqc (int (nsum e (rfc_pseudo4 p (v4_l4len p)))) 0 \<or>
       \<not> v4_is_frag p \<and> v4_l4len p \<le> 10240 \<and> v4_l4len p \<le> length (v4_payload p))"
    and acc: "egress_accepts e R p"
  shows "\<exists>w'. egress_udp e K R (egress_vars e p) (length h) d u = Return TC_ACT_OK w'"
proof -
  let ?l4 = "v4_payload p" and ?v = "egress_vars e p"
  let ?c = "ld16 e (?l4 ! 6) (?l4 ! 7)" and ?z = "eqc (int (nsum e (rfc_pseudo4 p (v4_l4len p)))) 0"
  have ld: "bpf_skb_load_bytes K (w_skb u) (length h + 6) 2 = (0, [?l4 ! 6, ?l4 ! 7])"
    using load_live_ok [of 2 "length h + 6" "w_skb u"] rdy window2_st16 [of 6 ?l4]
    by (simp add: u window_def)
  note z = udp_p4_fold [OF p acc]
  note cr = csum_replace_live [of "length h + 6" u]
  consider (given) "?c \<noteq> 0" | (zero_sum) "?c = 0" ?z | (full) "?c = 0" "\<not> ?z" by blast
  then show ?thesis
  proof cases
    case given
    with cr [OF _ _ udp_flags(1)] h rdy show ?thesis by (simp add: egress_udp_def ld u)
  next
    case zero_sum
    with z cr [OF _ _ udp_flags(5)] h rdy show ?thesis by (simp add: egress_udp_def ld u)
  next
    case full
    then have f: "\<not> v4_is_frag p" "v4_l4len p \<le> 10240" "v4_l4len p \<le> length ?l4" using rdy by simp_all
    obtain c' where "udp_full_csum K (w_skb u) (length h) (v4_l4len p)
        (word_of_int (bpf_csum_diff K [] (pseudo6_bytes e (egress_pseudo6 e R ?v 17)) 0)) = Some c'"
      using udp_full_csum_live [of "length h" "v4_l4len p" "w_skb u"] f u by fastforce
    with full z f p rdy store_live [of "length h + 6" "st16 e c'" "w_skb u" STORE_FLAGS] u show ?thesis
      by (simp add: egress_udp_def egress_vars_fields ld egress_done_def Let_def case_prod_beta not_less)
  qed
qed

lemma egress_l4_live:
  assumes u: "pkt (w_skb u) = h @ v4_payload p" and h: "even (length h)" and p: "34 \<le> length p"
    and rdy: "egress_l4_ready e p" and acc: "egress_accepts e R p"
  shows "\<exists>w'. egress_l4 e K R (egress_vars e p) (length h) u = Return TC_ACT_OK w'"
proof -
  let ?l4 = "v4_payload p" and ?v = "egress_vars e p"
  consider (skip) "\<not> v4_first p \<or> p ! 23 \<notin> {1, 6, 17}" | (tcp) "v4_first p" "p ! 23 = 6"
    | (udp) "v4_first p" "p ! 23 = 17" | (icmp) "v4_first p" "p ! 23 = 1" by auto
  then show ?thesis
  proof cases
    case skip
    then show ?thesis using p by (auto simp: egress_l4_def egress_vars_fields egress_done_def)
  next
    case tcp
    then have "18 \<le> length ?l4" using rdy by (simp add: egress_l4_ready_def Let_def)
    with csum_replace_live [of "length h + 16" u BPF_F_PSEUDO_HDR] h u tcp p show ?thesis
      by (simp add: egress_l4_def egress_tcp_def egress_vars_fields tcp_flags)
  next
    case udp
    then show ?thesis
      using egress_udp_live [OF u h p _ _ acc] rdy p by (simp add: egress_l4_def egress_vars_fields egress_l4_ready_def Let_def)
  next
    case icmp
    then have r: "4 \<le> length ?l4" "?l4 ! 0 = ICMP_ECHO \<or> ?l4 ! 0 = ICMP_ECHOREPLY"
      using rdy by (auto simp: egress_l4_ready_def Let_def)
    then show ?thesis using egress_icmp_live [of u h ?l4 R ?v] icmp p u h by (simp add: egress_l4_def egress_vars_fields)
  qed
qed

lemma egress_csum_replace_counters:
  "egress_csum_replace K off d flags u = Return TC_ACT_OK w' \<Longrightarrow>
   clat_counters w' = clat_counters (count K CNT_EGRESS_TRANSLATED u)"
  by (auto simp: egress_csum_replace_def egress_done_def DROP_def Let_def count_def
      split: if_splits prod.splits option.splits)

lemma egress_l4_counters:
  assumes "egress_l4 e K R v off u = Return TC_ACT_OK w'" and "counters_ok u"
  shows "clat_counters w' = tick CNT_EGRESS_TRANSLATED (clat_counters u)"
proof -
  have "clat_counters w' = clat_counters (count K CNT_EGRESS_TRANSLATED u)"
    using assms(1) egress_csum_replace_counters
    by (auto simp: egress_l4_def egress_tcp_def egress_udp_def egress_icmp_def egress_done_def DROP_def
        Let_def count_def split: if_splits prod.splits option.splits)
  with assms(2) show ?thesis by (simp add: count_counters tick_def)
qed

lemma egress_live:
  assumes "egress_ready e R w"
  shows "\<exists>w'. egress_translates e K R w w'"
proof -
  let ?p = "pkt (w_skb w)" and ?v = "egress_vars e (pkt (w_skb w))"
  have w: "skb_wf (w_skb w)" "protocol (w_skb w) = ETH_P_IP" "14 \<le> linear (w_skb w)" "counters_ok w"
      "egress_accepts e R ?p" "14 + v4_hlen ?p \<le> length ?p" "egress_l4_ready e ?p"
    and o: "v4_hlen ?p = 20 \<or> \<not> option_walk (window 34 (v4_hlen ?p - 20) ?p)"
    using assms by (simp_all add: egress_ready_def Let_def)
  then have p: "34 \<le> length ?p" and "20 \<le> hdr4_len (hdr4 e ?p)" by (simp_all add: egress_accepts_def Let_def)
  then have h: "20 \<le> v4_hlen ?p" by (simp add: hdr4_fields)
  obtain w1 where s1: "egress_parse e K R w = Next (?v, w1)" using egress_parse_live [OF w(1,3,5)] by blast
  have w1: "pkt (w_skb w1) = ?p" "protocol (w_skb w1) = ETH_P_IP" "is_partial (w_skb w1) = is_partial (w_skb w)"
    using egress_parse_Next [OF s1 w(1)] w(2) by (simp_all add: same_packet_def)
  have ol: "eg_optlen ?v = v4_hlen ?p - 20" using p by (simp add: egress_vars_fields)
  obtain w2 where s2: "egress_options K ?v w1 = Next w2"
    using egress_options_live [OF w1(2,1) h w(6) o ol] by blast
  have w2: "pkt (w_skb w2) = take 34 ?p @ v4_payload ?p" "protocol (w_skb w2) = ETH_P_IP"
    using egress_options_Next [OF s2 w1(2)] p h by (simp_all add: w1 ol v4_payload_def)
  have "34 \<le> length (pkt (w_skb w2))" using p by (simp add: w2)
  then obtain off u where s3: "egress_reshape e K R ?v w2 = Next (off, u)"
    using egress_reshape_live [OF w2(2)] by blast
  have u: "pkt (w_skb u) = rfc_frame6 e R ?p [] @ v4_payload ?p" "off = length (rfc_frame6 e R ?p [])"
    using egress_reshape_Next [OF s3 w2(2)] p w2 header6_bytes [OF p refl, of e R, symmetric]
    by (simp_all add: rfc_frame6_def net16_def eth_p_defs egress_vars_fields hi8_def lo8_def)
  have "even (length (rfc_frame6 e R ?p []))" using p by (simp add: length_rfc_frame6 v6_l4off_def length_rfc_frag_header)
  then obtain w' where s4: "egress_l4 e K R ?v off u = Return TC_ACT_OK w'"
    using egress_l4_live [OF u(1) _ p w(7,5)] u(2) by blast
  have "clat_counters u = clat_counters w"
    using egress_parse_counters [OF s1] egress_options_counters [OF s2] egress_reshape_counters [OF s3] by simp
  then have "clat_counters w' = tick CNT_EGRESS_TRANSLATED (clat_counters w)"
    using egress_l4_counters [OF s4] w(4) by simp
  moreover have "clat_egress e K R w = Return TC_ACT_OK w'" by (simp add: clat_egress_def s1 s2 s3 s4)
  ultimately show ?thesis using w by (auto simp: egress_translates_def)
qed

end

end
