(* ===== verification/Egress_Correct.thy ===== *)
theory Egress_Correct
  imports Egress_Live
begin

text \<open>
  The properties of \<open>clat_egress\<close>: it refines the header translation of RFC 7915, lets no
  spoofed, multicast or source-routed packet through, leaves transport checksums that verify
  in the IPv6 packet, and translates every packet that passes its checks when the kernel
  serves its calls. Examples of packets that meet the hypotheses are at the end of each part.
\<close>

section \<open>Helper lemmas\<close>

text \<open>What follows the IPv6 headers in the translation \<open>q\<close> of the frame \<open>p\<close>.\<close>

definition v6_payload :: "bytes \<Rightarrow> bytes \<Rightarrow> bytes" where
  "v6_payload p q = drop (v6_l4off p) q"

lemma v6_payload_frame: "34 \<le> length p \<Longrightarrow> v6_payload p (rfc_frame6 e R p [] @ xs) = xs"
  by (simp add: v6_payload_def length_rfc_frame6 [symmetric, of p e R])

lemma st16_zero: "st16 e c = [0, 0] \<longleftrightarrow> c = 0"
  using st16_inject [of e c 0] by (cases e) simp_all

lemma nth_overwrite_other:
  assumes "i < k \<or> k + length ys \<le> i" and "k + length ys \<le> length xs"
  shows "overwrite k ys xs ! i = xs ! i"
  using assms by (auto simp: overwrite_def nth_append)

definition partial_ok :: "byte_order \<Rightarrow> bytes \<Rightarrow> bytes \<Rightarrow> nat \<Rightarrow> bool" where
  "partial_ok e ps l4 k \<longleftrightarrow> eqc (uint (ld16 e (l4 ! k) (l4 ! (k + 1)))) (int (nsum e ps))"

lemma ld16_overwrite:
  "k + 2 \<le> length l4 \<Longrightarrow> ld16 e (overwrite k (st16 e c) l4 ! k) (overwrite k (st16 e c) l4 ! (k + 1)) = c"
  by (simp add: overwrite_def nth_append)

context bpf_kernel
begin

lemma carry_partial:
  assumes p: "34 \<le> length p" and n: "n < 65536"
    and c': "eqc (uint c') (uint (ld16 e (l4 ! k) (l4 ! (k + 1))) + uint (egress_diff e K R (egress_vars e p)))"
    and ok: "partial_ok e (rfc_pseudo4 p n) l4 k" and k: "k + 2 \<le> length l4"
  shows "partial_ok e (rfc_pseudo6 e R p n (p ! 23)) (overwrite k (st16 e c') l4) k"
proof -
  have "eqc (uint (ld16 e (l4 ! k) (l4 ! (k + 1))) + uint (egress_diff e K R (egress_vars e p)))
            (int (nsum e (rfc_pseudo4 p n)) + uint (egress_diff e K R (egress_vars e p)))"
    using ok by (intro eqc_add eqc_refl) (simp add: partial_ok_def)
  from eqc_trans [OF c' this] have "eqc (uint c') (uint (egress_diff e K R (egress_vars e p)) + int (nsum e (rfc_pseudo4 p n)))"
    by (simp add: add.commute)
  from eqc_trans [OF this egress_diff_eqc [OF p n]] show ?thesis
    unfolding partial_ok_def ld16_overwrite [OF k] .
qed

lemma translated_accepts:
  assumes "egress_translates e K R w w'"
  shows "egress_accepts e R (pkt (w_skb w))"
    and "v4_hlen (pkt (w_skb w)) \<noteq> 20 \<longrightarrow>
      \<not> option_walk (window 34 (v4_hlen (pkt (w_skb w)) - 20) (pkt (w_skb w)))"
  by (rule egress_reaches_l4 [OF assms], simp)+

end

section \<open>Checksums\<close>

text \<open>
  (C5) A TCP segment whose checksum verifies against the IPv4
  pseudo-header leaves \<open>clat_egress\<close> with a checksum that verifies against the IPv6
  pseudo-header. For a first fragment \<open>m\<close> bytes of the segment are in the packet and
  \<open>rest\<close> are the bytes of the other fragments; \<open>len\<close> is the length of the whole segment.
\<close>

theorem egress_tcp_checksum:
  assumes K: "bpf_kernel e K" and t: "egress_translates e K R w w'"
    and p: "p = pkt (w_skb w)" "p ! 23 = 6" "v4_first p" and np: "\<not> is_partial (w_skb w)"
    and n: "len < 65536" "18 \<le> m" "m \<le> length (v4_payload p)"
    and ok: "inet_ok (rfc_pseudo4 p len @ take m (v4_payload p) @ rest)"
  shows "inet_ok (rfc_pseudo6 e R p len 6 @ take m (v6_payload p (pkt (w_skb w'))) @ rest)"
proof (rule bpf_kernel.egress_tcp_frame [OF K t p])
  fix c' assume "pkt (w_skb w') = rfc_frame6 e R p [] @ overwrite 16 (st16 e c') (v4_payload p)"
    and l: "34 \<le> length p"
    and "l4_update (is_partial (w_skb w)) BPF_F_PSEUDO_HDR (ld16 e (v4_payload p ! 16) (v4_payload p ! 17))
           (ucast (egress_diff e K R (egress_vars e p))) c'"
  then show ?thesis
    using bpf_kernel.carry_valid [OF K l n(1) _ _ _ n(3) _ ok, of 16 c' R] n p(2) np bpf_kernel.tcp_flags(3) [OF K]
    by (simp add: v6_payload_frame l4_update_def uint_ucast_u64)
qed

text \<open>
  (C8) The same for UDP with a checksum in the packet; the translated
  checksum is not zero, so that it does not read as absent.
\<close>

theorem egress_udp_checksum:
  assumes K: "bpf_kernel e K" and t: "egress_translates e K R w w'"
    and p: "p = pkt (w_skb w)" "p ! 23 = 17" "v4_first p" and np: "\<not> is_partial (w_skb w)"
    and n: "len < 65536" "8 \<le> m" "m \<le> length (v4_payload p)"
    and c: "ld16 e (v4_payload p ! 6) (v4_payload p ! 7) \<noteq> 0"
    and ok: "inet_ok (rfc_pseudo4 p len @ take m (v4_payload p) @ rest)"
  shows "inet_ok (rfc_pseudo6 e R p len 17 @ take m (v6_payload p (pkt (w_skb w'))) @ rest) \<and>
    window 6 2 (v6_payload p (pkt (w_skb w'))) \<noteq> [0, 0]"
proof (rule bpf_kernel.egress_udp_frame [OF K t p])
  fix c' flags assume "pkt (w_skb w') = rfc_frame6 e R p [] @ overwrite 6 (st16 e c') (v4_payload p)"
    and l: "34 \<le> length p" and "has_flag flags BPF_F_MARK_MANGLED_0"
    and "l4_update (is_partial (w_skb w)) flags (ld16 e (v4_payload p ! 6) (v4_payload p ! 7))
           (ucast (egress_diff e K R (egress_vars e p))) c'"
  moreover have "window 6 2 (overwrite 6 (st16 e c') (v4_payload p)) = st16 e c'"
    using n window_overwrite_same [of 6 "st16 e c'" "v4_payload p"] by simp
  moreover note st16_zero [of e c']
  ultimately show ?thesis
    using bpf_kernel.carry_valid [OF K l n(1) _ _ _ n(3) _ ok, of 6 c' R] n p(2) np c
    by (simp add: v6_payload_frame l4_update_def uint_ucast_u64)
qed (use c in simp_all)


text \<open>
  (C9) An ICMP echo message whose checksum verifies becomes the ICMPv6
  echo message of the same direction whose checksum verifies against the IPv6 pseudo-header.
\<close>

theorem egress_icmp_checksum:
  assumes K: "bpf_kernel e K" and t: "egress_translates e K R w w'"
    and p: "p = pkt (w_skb w)" "p ! 23 = 1" and np: "\<not> is_partial (w_skb w)"
    and n: "4 \<le> v4_l4len p" "v4_l4len p \<le> length (v4_payload p)"
    and ok: "inet_ok (take (v4_l4len p) (v4_payload p))"
  shows "inet_ok (rfc_pseudo6 e R p (v4_l4len p) 58 @ take (v4_l4len p) (v6_payload p (pkt (w_skb w')))) \<and>
    (v4_payload p ! 0, v6_payload p (pkt (w_skb w')) ! 0) \<in> {(8, 128), (0, 129)}"
proof (rule bpf_kernel.egress_icmp_frame [OF K t p])
  let ?l4 = "v4_payload p" and ?ps = "rfc_pseudo6 e R p (v4_l4len p) 58"
  fix t6 c' and d :: u32 assume t6: "(?l4 ! 0, t6) \<in> {(ICMP_ECHO, 128), (ICMP_ECHOREPLY, 129)}"
    and q: "pkt (w_skb w') = rfc_frame6 e R p [] @ overwrite 2 (st16 e c') (overwrite 0 [t6] ?l4)"
    and l: "34 \<le> length p"
    and u: "l4_update (is_partial (w_skb w)) BPF_F_PSEUDO_HDR (ld16 e (?l4 ! 2) (?l4 ! 3)) (ucast d) c'"
    and d: "eqc (uint d + int (nsum e [?l4 ! 0, ?l4 ! 1])) (int (nsum e ?ps) + int (nsum e [t6, ?l4 ! 1]))"
  have "eqc (uint c' + uint d) (uint (ld16 e (?l4 ! 2) (?l4 ! 3)))"
    using u np bpf_kernel.tcp_flags(3) [OF K] by (simp add: l4_update_def uint_ucast_u64)
  from bpf_kernel.icmp_valid [OF K ok n _ _ this d] have
    "inet_ok (?ps @ take (v4_l4len p) (overwrite 2 (st16 e c') (overwrite 0 [t6] ?l4)))"
    using even_pseudo(2) [OF l] nsum_pseudo6_nz [OF l v4_l4len_less, of 58] by simp
  moreover have "overwrite 2 (st16 e c') (overwrite 0 [t6] ?l4) ! 0 = t6"
    using n by (simp add: overwrite_def nth_append)
  ultimately show ?thesis using t6 l by (auto simp: q v6_payload_frame const_defs)
qed

text \<open>
  (C18) When the kernel has left the checksum to the device, so that the field
  holds the sum of the IPv4 pseudo-header, the field holds the sum of the IPv6 pseudo-header
  afterwards, for TCP and for UDP, and also where the sum of the IPv4 pseudo-header is zero
  and the field looks like an absent checksum.
\<close>

theorem egress_partial:
  assumes K: "bpf_kernel e K" and t: "egress_translates e K R w w'"
    and p: "p = pkt (w_skb w)" "v4_first p" "(p ! 23, k) \<in> {(6, 16), (17, 6)}" and pa: "is_partial (w_skb w)"
    and ok: "partial_ok e (rfc_pseudo4 p (v4_l4len p)) (v4_payload p) k"
  shows "partial_ok e (rfc_pseudo6 e R p (v4_l4len p) (p ! 23)) (v6_payload p (pkt (w_skb w'))) k"
proof -
  let ?l4 = "v4_payload p"
  note cp = bpf_kernel.carry_partial [OF K _ v4_l4len_less _ ok, of _ R]
  consider (tcp) "p ! 23 = 6" "k = 16" | (udp) "p ! 23 = 17" "k = 6" using p(3) by auto
  then show ?thesis
  proof cases
    case tcp
    show ?thesis
      by (rule bpf_kernel.egress_tcp_frame [OF K t p(1) tcp(1) p(2)])
        (use cp pa tcp bpf_kernel.tcp_flags(3) [OF K] in \<open>simp add: v6_payload_frame l4_update_def uint_ucast_u64\<close>)
  next
    case udp
    show ?thesis
    proof (rule bpf_kernel.egress_udp_frame [OF K t p(1) udp(1) p(2)])
      fix c' flags assume "pkt (w_skb w') = rfc_frame6 e R p [] @ overwrite 6 (st16 e c') ?l4"
        "8 \<le> length ?l4" "34 \<le> length p" "has_flag flags BPF_F_MARK_MANGLED_0"
        "l4_update (is_partial (w_skb w)) flags (ld16 e (?l4 ! 6) (?l4 ! 7)) (ucast (egress_diff e K R (egress_vars e p))) c'"
        "ld16 e (?l4 ! 6) (?l4 ! 7) = 0 \<longrightarrow>
           has_flag flags BPF_F_MARK_ENFORCE \<and> eqc (int (nsum e (rfc_pseudo4 p (v4_l4len p)))) 0"
      then show ?thesis
        using cp [of c'] pa udp by (auto simp: v6_payload_frame l4_update_def uint_ucast_u64 split: if_splits)
    next
      assume "ld16 e (?l4 ! 6) (?l4 ! 7) = 0" "\<not> eqc (int (nsum e (rfc_pseudo4 p (v4_l4len p)))) 0"
      then show ?thesis using ok udp eqc_sym by (simp add: partial_ok_def)
    qed
  qed
qed

section \<open>Refinement of RFC 7915\<close>

text \<open>The bytes behind the IP header that the translation may change.\<close>

definition egress_touched :: "bytes \<Rightarrow> nat set" where
  "egress_touched p =
     (if \<not> v4_first p then {} else if p ! 23 = 6 then {16, 17} else if p ! 23 = 17 then {6, 7}
      else if p ! 23 = 1 then {0, 2, 3} else {})"

lemma egress_frame6:
  assumes K: "bpf_kernel e K" and t: "egress_translates e K R w w'" and p: "p = pkt (w_skb w)"
  shows "\<exists>l4'. pkt (w_skb w') = rfc_frame6 e R p l4' \<and> length l4' = length (v4_payload p) \<and>
    (\<forall>i. i \<notin> egress_touched p \<longrightarrow> l4' ! i = v4_payload p ! i)"
proof -
  have ex: ?thesis if "pkt (w_skb w') = rfc_frame6 e R p [] @ xs" "length xs = length (v4_payload p)"
      "\<And>i. i \<notin> egress_touched p \<Longrightarrow> xs ! i = v4_payload p ! i" for xs
    using that by (intro exI [of _ xs]) (simp add: rfc_frame6_append [of e R p xs])
  consider (skip) "\<not> v4_first p \<or> p ! 23 \<notin> {1, 6, 17}" | (tcp) "v4_first p" "p ! 23 = 6"
    | (udp) "v4_first p" "p ! 23 = 17" | (icmp) "v4_first p" "p ! 23 = 1" by auto
  then show ?thesis
  proof cases
    case skip
    with bpf_kernel.egress_other_frame [OF K t p] ex show ?thesis by simp
  next
    case tcp
    show ?thesis
      by (rule bpf_kernel.egress_tcp_frame [OF K t p tcp(2,1)], erule ex)
        (use tcp in \<open>auto simp: egress_touched_def intro!: nth_overwrite_other\<close>)
  next
    case udp
    show ?thesis
      by (rule bpf_kernel.egress_udp_frame [OF K t p udp(2,1)]; erule ex)
        (use udp in \<open>auto simp: egress_touched_def intro!: nth_overwrite_other\<close>)
  next
    case icmp
    have other: "overwrite 2 (st16 e c') (overwrite 0 [t6] l4) ! i = l4 ! i"
      if "4 \<le> length l4" "i \<notin> egress_touched p" for c' t6 i and l4 :: bytes
    proof -
      have "i = 1 \<or> 4 \<le> i" using icmp that(2) by (auto simp: egress_touched_def)
      with that(1) show ?thesis by (auto simp: nth_overwrite_other)
    qed
    show ?thesis
      by (rule bpf_kernel.egress_icmp_frame [OF K t p icmp(2)], erule ex) (simp_all add: other)
  qed
qed

text \<open>
  (C1) A translated packet is, byte for byte, the Ethernet addresses of the old
  frame, the IPv6 type, the IPv6 header and fragment header RFC 7915 prescribes for the IPv4
  header, and the old payload without the IPv4 options, which differs from the old one at
  most in the transport checksum and the ICMP type.
\<close>

theorem egress_refines:
  assumes K: "bpf_kernel e K" and t: "egress_translates e K R w w'" and p: "p = pkt (w_skb w)"
  shows "\<exists>l4'. pkt (w_skb w') = rfc_frame6 e R p l4' \<and> length l4' = length (v4_payload p) \<and>
    (\<forall>i. i \<notin> egress_touched p \<longrightarrow> l4' ! i = v4_payload p ! i)"
  by (rule egress_frame6 [OF assms])

section \<open>What is let through\<close>

lemma join16_and: "join16 a b AND join16 c d = join16 (a AND c) (b AND d)"
  unfolding join16_def by (rule bit_eqI) (auto simp: bit_simps dest: bit_imp_le_length)

lemma join32_and: "join32 a b AND join32 c d = join32 (a AND c) (b AND d)"
  unfolding join32_def by (rule bit_eqI) (auto simp: bit_simps dest: bit_imp_le_length)

lemma multicast_bytes:
  "ld32 e a b c d AND bpf_htonl e 0xf0000000 = bpf_htonl e 0xe0000000 \<longleftrightarrow> a AND 0xf0 = 0xe0"
proof -
  have m: "(0xf0000000 :: u32) = join32 (join16 0xf0 0) (join16 0 0)"
    "(0xe0000000 :: u32) = join32 (join16 0xe0 0) (join16 0 0)" by (simp_all add: join32_def join16_def)
  show ?thesis unfolding m htonl_join32 by (cases e) (simp_all add: join16_and join32_and del: join16_zero)
qed

lemma broadcast_bytes:
  "ld32 e a b c d = bpf_htonl e 0xffffffff \<longleftrightarrow> [a, b, c, d] = [0xff, 0xff, 0xff, 0xff]"
proof -
  have "(0xffffffff :: u32) = join32 (join16 0xff 0xff) (join16 0xff 0xff)" by (simp add: join32_def join16_def)
  then show ?thesis by (simp only: htonl_join32) simp
qed


section \<open>Progress\<close>

text \<open>
  (C13) With a kernel that serves every valid call, every packet that
  passes the checks is translated: an IPv4 frame from the pod to a unicast address, complete
  options without a source route, and a transport header long enough for its checksum. A
  UDP datagram without a checksum needs to be unfragmented and at most 10240 bytes long.
\<close>

theorem egress_translates_ready:
  assumes "bpf_kernel_live e K" and "egress_ready e R w"
  shows "\<exists>w'. egress_translates e K R w w'"
  by (rule bpf_kernel_live.egress_live [OF assms])

section \<open>Examples\<close>

text \<open>
  A pod with the CLAT address 192.0.0.2, the address fd00::10 and the prefix 64:ff9b::/96,
  and packets of it to 198.51.100.1: a TCP segment with a full and with a partial checksum, a
  UDP datagram with and without a checksum, and an echo request.
\<close>

definition ex_pod :: "byte_order \<Rightarrow> rodata" where
  "ex_pod e =
     \<lparr>CLAT_PREFIX = in6_of e [0x00, 0x64, 0xff, 0x9b, 0, 0, 0, 0, 0, 0, 0, 0, 0, 0, 0, 0],
      POD_IP6 = in6_of e [0xfd, 0, 0, 0, 0, 0, 0, 0, 0, 0, 0, 0, 0, 0, 0, 0x10],
      POD_IP4 = ld32 e 192 0 0 2, ERR_IP4 = ld32 e 192 0 0 8\<rparr>"

definition ex_world :: "csum_state \<Rightarrow> bytes \<Rightarrow> world" where
  "ex_world c p = \<lparr>w_skb = \<lparr>pkt = p, linear = 14, protocol = ETH_P_IP, ip_summed = c\<rparr>,
                   clat_counters = counters_init\<rparr>"

definition ex_ip4 :: "u8 \<Rightarrow> bytes \<Rightarrow> bytes" where
  "ex_ip4 pr l4 =
     [0, 0, 0, 0, 0, 0, 0, 0, 0, 0, 0, 0, 0x08, 0x00,
      0x45, 0, 0, 20 + word_of_nat (length l4), 0, 1, 0, 0, 64, pr, 0, 0, 192, 0, 0, 2, 198, 51, 100, 1] @ l4"

definition ex_tcp :: "u8 \<Rightarrow> u8 \<Rightarrow> bytes" where
  "ex_tcp c d = ex_ip4 6 [192, 0, 0, 80, 0, 0, 0, 1, 0, 0, 0, 0, 80, 2, 32, 0, c, d, 0, 0]"

definition ex_udp :: "u8 \<Rightarrow> u8 \<Rightarrow> bytes" where
  "ex_udp c d = ex_ip4 17 [48, 57, 0, 53, 0, 9, c, d, 65]"

definition ex_echo :: bytes where
  "ex_echo = ex_ip4 1 [8, 0, 247, 247, 0, 7, 0, 1]"

lemmas ex_defs = ex_pod_def ex_world_def ex_ip4_def ex_tcp_def ex_udp_def ex_echo_def

lemmas ready_defs = egress_ready_def egress_l4_ready_def egress_accepts_def hdr4_def hdr4_len_def is_ip4_frame_def
  egress_vars_def iphdr_of_def window_def v4_hlen_def v4_payload_def v4_first_def v4_is_frag_def
  v4_frag_word_def v4_l4len_def v4_tot_len_def skb_wf_def counters_init_def Let_def

lemma ex_tcp_ready: "egress_ready e (ex_pod e) (ex_world cs (ex_tcp c d))"
  by (cases e) (simp_all add: ready_defs ex_defs ld16_eq_htons ETH_P_IP_def join16_def const_defs
      multicast_bytes broadcast_bytes del: ld16.simps ld32.simps)

lemma ex_udp_ready: "egress_ready e (ex_pod e) (ex_world cs (ex_udp c d))"
  by (cases e) (simp_all add: ready_defs ex_defs ld16_eq_htons ETH_P_IP_def join16_def const_defs
      multicast_bytes broadcast_bytes del: ld16.simps ld32.simps)

lemma ex_echo_ready: "egress_ready e (ex_pod e) (ex_world cs ex_echo)"
  by (cases e) (simp_all add: ready_defs ex_defs ld16_eq_htons ETH_P_IP_def join16_def const_defs
      multicast_bytes broadcast_bytes del: ld16.simps ld32.simps)

lemmas ex_eval = ex_defs ready_defs is_partial_def inet_ok_def ones_add_def join16_def rfc_pseudo4_def net16_def
  hi8_def lo8_def partial_ok_def

theorem egress_tcp_checksum_witness:
  "\<exists>w'. egress_translates LITTLE_ENDIAN (ref_kernel LITTLE_ENDIAN) (ex_pod LITTLE_ENDIAN)
          (ex_world CHECKSUM_NONE (ex_tcp 229 89)) w' \<and>
        inet_ok (rfc_pseudo6 LITTLE_ENDIAN (ex_pod LITTLE_ENDIAN) (ex_tcp 229 89) 20 6 @
          take 20 (v6_payload (ex_tcp 229 89) (pkt (w_skb w'))) @ [])"
proof -
  obtain w' where t: "egress_translates LITTLE_ENDIAN (ref_kernel LITTLE_ENDIAN) (ex_pod LITTLE_ENDIAN)
      (ex_world CHECKSUM_NONE (ex_tcp 229 89)) w'" using ref.egress_live [OF ex_tcp_ready] by blast
  have "inet_ok (rfc_pseudo6 LITTLE_ENDIAN (ex_pod LITTLE_ENDIAN) (ex_tcp 229 89) 20 6 @
      take 20 (v6_payload (ex_tcp 229 89) (pkt (w_skb w'))) @ [])"
    by (rule egress_tcp_checksum [OF ref.bpf_kernel_axioms t]) (simp_all add: ex_eval)
  with t show ?thesis by blast
qed

theorem egress_udp_checksum_witness:
  "\<exists>w'. egress_translates BIG_ENDIAN (ref_kernel BIG_ENDIAN) (ex_pod BIG_ENDIAN)
          (ex_world CHECKSUM_NONE (ex_udp 164 54)) w' \<and>
        window 6 2 (v6_payload (ex_udp 164 54) (pkt (w_skb w'))) \<noteq> [0, 0]"
proof -
  obtain w' where t: "egress_translates BIG_ENDIAN (ref_kernel BIG_ENDIAN) (ex_pod BIG_ENDIAN)
      (ex_world CHECKSUM_NONE (ex_udp 164 54)) w'" using ref.egress_live [OF ex_udp_ready] by blast
  have "window 6 2 (v6_payload (ex_udp 164 54) (pkt (w_skb w'))) \<noteq> [0, 0]"
    using egress_udp_checksum [OF ref.bpf_kernel_axioms t, of "ex_udp 164 54" 9 9 "[]"]
    by (simp add: ex_eval)
  with t show ?thesis by blast
qed


theorem egress_icmp_checksum_witness:
  "\<exists>w'. egress_translates LITTLE_ENDIAN (ref_kernel LITTLE_ENDIAN) (ex_pod LITTLE_ENDIAN)
          (ex_world CHECKSUM_NONE ex_echo) w' \<and> v6_payload ex_echo (pkt (w_skb w')) ! 0 = 128"
proof -
  obtain w' where t: "egress_translates LITTLE_ENDIAN (ref_kernel LITTLE_ENDIAN) (ex_pod LITTLE_ENDIAN)
      (ex_world CHECKSUM_NONE ex_echo) w'" using ref.egress_live [OF ex_echo_ready] by blast
  have "v6_payload ex_echo (pkt (w_skb w')) ! 0 = 128"
    using egress_icmp_checksum [OF ref.bpf_kernel_axioms t, of ex_echo] by (simp add: ex_eval)
  with t show ?thesis by blast
qed

theorem egress_partial_witness:
  "\<exists>w'. egress_translates BIG_ENDIAN (ref_kernel BIG_ENDIAN) (ex_pod BIG_ENDIAN)
          (ex_world CHECKSUM_PARTIAL (ex_tcp 234 81)) w' \<and>
        partial_ok BIG_ENDIAN (rfc_pseudo6 BIG_ENDIAN (ex_pod BIG_ENDIAN) (ex_tcp 234 81) 20 6)
          (v6_payload (ex_tcp 234 81) (pkt (w_skb w'))) 16"
proof -
  obtain w' where t: "egress_translates BIG_ENDIAN (ref_kernel BIG_ENDIAN) (ex_pod BIG_ENDIAN)
      (ex_world CHECKSUM_PARTIAL (ex_tcp 234 81)) w'" using ref.egress_live [OF ex_tcp_ready] by blast
  have p: "v4_l4len (ex_tcp 234 81) = 20" "ex_tcp 234 81 ! 23 = 6" by (simp_all add: ex_eval)
  have "partial_ok BIG_ENDIAN (rfc_pseudo4 (ex_tcp 234 81) (v4_l4len (ex_tcp 234 81))) (v4_payload (ex_tcp 234 81)) 16"
    unfolding p by (simp add: ex_eval eqc_def)
  moreover have "v4_first (ex_tcp 234 81)" by (simp add: ex_eval)
  ultimately have "partial_ok BIG_ENDIAN (rfc_pseudo6 BIG_ENDIAN (ex_pod BIG_ENDIAN) (ex_tcp 234 81) 20 6)
      (v6_payload (ex_tcp 234 81) (pkt (w_skb w'))) 16"
    using egress_partial [OF ref.bpf_kernel_axioms t, of "ex_tcp 234 81" 16] p
    by (simp add: ex_world_def is_partial_def)
  with t show ?thesis by blast
qed

theorem egress_refines_witness:
  "\<exists>w' l4'. egress_translates BIG_ENDIAN (ref_kernel BIG_ENDIAN) (ex_pod BIG_ENDIAN)
             (ex_world CHECKSUM_NONE (ex_udp 164 54)) w' \<and>
           pkt (w_skb w') = rfc_frame6 BIG_ENDIAN (ex_pod BIG_ENDIAN) (ex_udp 164 54) l4'"
proof -
  obtain w' where t: "egress_translates BIG_ENDIAN (ref_kernel BIG_ENDIAN) (ex_pod BIG_ENDIAN)
      (ex_world CHECKSUM_NONE (ex_udp 164 54)) w'" using ref.egress_live [OF ex_udp_ready] by blast
  from egress_refines [OF ref.bpf_kernel_axioms t, of "ex_udp 164 54"] t show ?thesis
    by (auto simp: ex_world_def)
qed


theorem egress_translates_ready_witness:
  "\<exists>w'. egress_translates BIG_ENDIAN (ref_kernel BIG_ENDIAN) (ex_pod BIG_ENDIAN)
          (ex_world CHECKSUM_NONE ex_echo) w'"
  by (rule egress_translates_ready [OF ref.bpf_kernel_live_axioms ex_echo_ready])

end
