(* ===== verification/Ingress_Spec.thy ===== *)
theory Ingress_Spec
  imports Ingress Egress_Correct
begin

text \<open>
  What \<open>clat_ingress\<close> does to the bytes of a packet, up to the transport stage. The stage
  lemmas hold for every kernel that keeps the contract \<open>bpf_kernel\<close>, with any helper call
  free to fail. The reference is the header translation of RFC 7915, section 5.1, on bytes
  in network order.
\<close>

lemma ld16_nonzero_hi: "a \<noteq> 0 \<Longrightarrow> unat (ld16 e a b) \<noteq> 0"
  by (cases e) (simp_all add: unat_join16 unsigned_eq_0_iff)

section \<open>Accepted packets\<close>

definition hdr6 :: "byte_order \<Rightarrow> bytes \<Rightarrow> ipv6hdr" where
  "hdr6 e p = ipv6hdr_of e (window ETH_HLEN IP6_HLEN p)"

definition fhdr6 :: "byte_order \<Rightarrow> bytes \<Rightarrow> frag_hdr" where
  "fhdr6 e p = frag_hdr_of e (window 54 8 p)"

text \<open>An IPv6 header of a packet from the pod into the prefix.\<close>

definition clat_flow :: "byte_order \<Rightarrow> rodata \<Rightarrow> ipv6hdr \<Rightarrow> bool" where
  "clat_flow e R h \<longleftrightarrow> ip6_version e h = 6 \<and> ip6_saddr h = POD_IP6 R \<and> in_prefix R (ip6_daddr h)"

definition ingress_matches :: "byte_order \<Rightarrow> rodata \<Rightarrow> bytes \<Rightarrow> bool" where
  "ingress_matches e R p \<longleftrightarrow>
     62 \<le> length p \<and> ld16 e (p ! 12) (p ! 13) = bpf_htons e ETH_P_IPV6 \<and>
     ip6_version e (hdr6 e p) = 6 \<and> ip6_daddr (hdr6 e p) = POD_IP6 R \<and>
     (in_prefix R (ip6_saddr (hdr6 e p)) \<or>
      ip6_nexthdr (hdr6 e p) = IPPROTO_ICMPV6 \<and> 102 \<le> length p \<and>
      p ! 54 \<noteq> 0 \<and> p ! 54 \<le> 4 \<and> clat_flow e R (ipv6hdr_of e (window 62 40 p)))"

definition ingress_vars :: "byte_order \<Rightarrow> rodata \<Rightarrow> bytes \<Rightarrow> ig" where
  "ingress_vars e R p =
     (let h = hdr6 e p; f = fhdr6 e p; frag = (ip6_nexthdr h = IPPROTO_FRAGMENT);
          fo = bpf_ntohs e (fh_frag_off f); n = unat (bpf_ntohs e (ip6_payload_len h))
      in \<lparr>ig_saddr6 = ip6_saddr h, ig_daddr6 = ip6_daddr h, ig_src_mapped = in_prefix R (ip6_saddr h),
          ig_tos = ucast (drop_bit 20 (bpf_ntohl e (ip6_word0 h))), ig_hop = ip6_hop_limit h,
          ig_nh = (if frag then fh_nexthdr f else ip6_nexthdr h),
          ig_payload_len = (if frag then n - 8 else n),
          ig_id = (if frag then ucast (bpf_ntohl e (fh_identification f)) else 0),
          ig_frag4 = (if frag then drop_bit 3 fo OR (if fo AND 1 \<noteq> 0 then IP_MF else 0) else IP_DF),
          ig_is_frag = frag, ig_first = (frag \<longrightarrow> drop_bit 3 fo = 0)\<rparr>)"

definition ingress_accepts :: "byte_order \<Rightarrow> rodata \<Rightarrow> bytes \<Rightarrow> bool" where
  "ingress_accepts e R p \<longleftrightarrow>
     (let h = hdr6 e p; v = ingress_vars e R p
      in ingress_matches e R p \<and> (ig_is_frag v \<longrightarrow> 8 \<le> unat (bpf_ntohs e (ip6_payload_len h))) \<and>
         \<not> is_ext_hdr (ig_nh v) \<and> \<not> (ig_nh v = IPPROTO_ICMPV6 \<and> ig_is_frag v))"

context bpf_kernel
begin

lemma ensure_linear_same:
  assumes "ensure_linear K s n = (True, s')" and "skb_wf s"
  shows "pkt s' = pkt s \<and> protocol s' = protocol s \<and> is_partial s' = is_partial s \<and> skb_wf s' \<and>
    n \<le> linear s' \<and> n \<le> length (pkt s)"
  using ensure_linear_frame [OF assms(1)] ensure_linear_wf [OF assms] ensure_linear_True [OF assms(1)]
  by (auto simp: is_partial_def skb_wf_def)

lemma ingress_match_error_Next:
  assumes "ingress_match_error e K R w = Next w'" and "skb_wf (w_skb w)"
  shows "same_packet w w' \<and> skb_wf (w_skb w') \<and> 102 \<le> linear (w_skb w') \<and> 102 \<le> length (pkt (w_skb w)) \<and>
    pkt (w_skb w) ! 54 \<noteq> 0 \<and> pkt (w_skb w) ! 54 \<le> 4 \<and>
    clat_flow e R (ipv6hdr_of e (window 62 40 (pkt (w_skb w))))"
proof -
  obtain b s where el: "ensure_linear K (w_skb w) 102 = (b, s)" by fastforce
  with assms(1) have b by (auto simp: ingress_match_error_def Let_def split: if_splits)
  with el ensure_linear_same [of "w_skb w" 102 s] assms(2)
  have s: "pkt s = pkt (w_skb w)" "protocol s = protocol (w_skb w)" "is_partial s = is_partial (w_skb w)" "skb_wf s"
      "102 \<le> linear s" "102 \<le> length (pkt (w_skb w))" by auto
  have "window 54 8 (pkt (w_skb w)) ! 0 = pkt (w_skb w) ! 54" using s(6) by (simp add: nth_window)
  with assms(1) el s show ?thesis
    by (auto simp: ingress_match_error_def lin_read_def same_packet_def clat_flow_def Let_def not_less split: if_splits)
qed

lemma ingress_match_Next:
  assumes "ingress_match e K R w = Next (a, w')" and "skb_wf (w_skb w)"
  defines "p \<equiv> pkt (w_skb w)"
  shows "same_packet w w' \<and> skb_wf (w_skb w') \<and> ingress_matches e R p \<and> 62 \<le> linear (w_skb w') \<and>
    a = (ip6_saddr (hdr6 e p), ip6_daddr (hdr6 e p), in_prefix R (ip6_saddr (hdr6 e p)))"
proof -
  have l: "14 \<le> linear (w_skb w)" using assms(1) by (auto simp: ingress_match_def split: if_splits)
  then have "14 \<le> length p" using assms(2) by (simp add: skb_wf_def p_def)
  then have et: "window 12 2 p ! 0 = p ! 12" "window 12 2 p ! Suc 0 = p ! 13" by (simp_all add: nth_window)
  obtain b s where el: "ensure_linear K (w_skb w) 62 = (b, s)" by fastforce
  with assms(1) l have b by (auto simp: ingress_match_def lin_read_def Let_def split: if_splits)
  with el ensure_linear_same [of "w_skb w" 62 s] assms(2)
  have s: "pkt s = p" "protocol s = protocol (w_skb w)" "is_partial s = is_partial (w_skb w)" "skb_wf s"
      "62 \<le> linear s" "62 \<le> length p" by (auto simp: p_def)
  have same: "same_packet w (w\<lparr>w_skb := s\<rparr>)" using s by (simp add: same_packet_def p_def)
  from assms(1) el \<open>b\<close> l s(1,5) et have m: "ld16 e (p ! 12) (p ! 13) = bpf_htons e ETH_P_IPV6" "ip6_version e (hdr6 e p) = 6"
      "ip6_daddr (hdr6 e p) = POD_IP6 R"
    and r: "(if in_prefix R (ip6_saddr (hdr6 e p))
        then Next ((ip6_saddr (hdr6 e p), ip6_daddr (hdr6 e p), True), w\<lparr>w_skb := s\<rparr>)
        else if ip6_nexthdr (hdr6 e p) \<noteq> IPPROTO_ICMPV6 then Return TC_ACT_OK (w\<lparr>w_skb := s\<rparr>)
        else bind_step (ingress_match_error e K R (w\<lparr>w_skb := s\<rparr>))
               (\<lambda>w. Next ((ip6_saddr (hdr6 e p), ip6_daddr (hdr6 e p), False), w))) = Next (a, w')"
    by (auto simp: ingress_match_def lin_read_def Let_def hdr6_def p_def [symmetric] split: if_splits)
  show ?thesis
  proof (cases "in_prefix R (ip6_saddr (hdr6 e p))")
    case True
    with r m s same show ?thesis by (auto simp: ingress_matches_def)
  next
    case False
    with r obtain "ip6_nexthdr (hdr6 e p) = IPPROTO_ICMPV6" "ingress_match_error e K R (w\<lparr>w_skb := s\<rparr>) = Next w'"
      "a = (ip6_saddr (hdr6 e p), ip6_daddr (hdr6 e p), False)"
      by (auto simp: bind_step_def split: if_splits step.splits)
    with ingress_match_error_Next [of R "w\<lparr>w_skb := s\<rparr>" w'] m s same False show ?thesis
      by (auto simp: ingress_matches_def same_packet_def)
  qed
qed

lemma ingress_parse_Next:
  assumes "ingress_parse e K R w = Next (v, w')" and "skb_wf (w_skb w)"
  shows "same_packet w w' \<and> v = ingress_vars e R (pkt (w_skb w)) \<and> ingress_accepts e R (pkt (w_skb w))"
proof -
  let ?p = "pkt (w_skb w)"
  obtain a where m: "ingress_match e K R w = Next (a, w')" and f: "ingress_fields e K a w' = Next v"
    and c: "ingress_checks K v w' = Next ()"
    using assms(1) by (auto simp: ingress_parse_def bind_step_def split: step.splits prod.splits)
  from ingress_match_Next [OF m assms(2)] have w': "same_packet w w'" "ingress_matches e R ?p" "62 \<le> linear (w_skb w')"
    "a = (ip6_saddr (hdr6 e ?p), ip6_daddr (hdr6 e ?p), in_prefix R (ip6_saddr (hdr6 e ?p)))" by auto
  then have q: "pkt (w_skb w') = ?p" by (simp add: same_packet_def)
  have v: "v = ingress_vars e R ?p" "ig_is_frag v \<longrightarrow> 8 \<le> unat (bpf_ntohs e (ip6_payload_len (hdr6 e ?p)))"
    using f w'(3,4) q
    by (auto simp: ingress_fields_def ingress_vars_def hdr6_def fhdr6_def lin_read_def DROP_def Let_def split: if_splits)
  have "\<not> is_ext_hdr (ig_nh v)" "\<not> (ig_nh v = IPPROTO_ICMPV6 \<and> ig_is_frag v)"
    using c by (auto simp: ingress_checks_def DROP_def split: if_splits)
  with v w'(1,2) show ?thesis by (simp add: ingress_accepts_def Let_def)
qed


section \<open>Reshape\<close>

lemma ingress_frag_room:
  assumes "(if frag then bpf_skb_adjust_room K s (- int FRAG_HLEN) BPF_ADJ_ROOM_NET ROOM_FLAGS else (0, s)) = (rc, s')"
    and "\<not> rc < 0" and "protocol s = ETH_P_IPV6" and "62 \<le> length (pkt s)"
  shows "54 \<le> length (pkt s') \<and> take 14 (pkt s') = take 14 (pkt s) \<and>
    drop 54 (pkt s') = drop (54 + (if frag then 8 else 0)) (pkt s) \<and>
    protocol s' = ETH_P_IPV6 \<and> is_partial s' = is_partial s"
proof (cases frag)
  case True
  with assms(1) have ad: "bpf_skb_adjust_room K s (- int 8) BPF_ADJ_ROOM_NET ROOM_FLAGS = (rc, s')" by simp
  have "net_base s = 54" using assms(3) by (simp add: net_base_def eth_p_defs)
  with adjust_shrink [of s 8 ROOM_FLAGS s', unfolded ad] assms(2-4) True show ?thesis
    by (simp add: room_flags min_def)
qed (use assms in auto)

lemma ingress_reshape_Next:
  assumes "ingress_reshape e K R v w = Next w'" and "protocol (w_skb w) = ETH_P_IPV6"
    and "62 \<le> length (pkt (w_skb w))"
  shows "pkt (w_skb w') = take 12 (pkt (w_skb w)) @ net16 ETH_P_IP @ iphdr_bytes e (ingress_h4 e K R v) @
      drop (54 + (if ig_is_frag v then 8 else 0)) (pkt (w_skb w)) \<and>
    protocol (w_skb w') = ETH_P_IP \<and> is_partial (w_skb w') = is_partial (w_skb w)"
proof -
  let ?p = "pkt (w_skb w)" and ?n = "54 + (if ig_is_frag v then 8 else 0) :: nat"
  obtain r1 s1 where c1: "(if ig_is_frag v then bpf_skb_adjust_room K (w_skb w) (- int FRAG_HLEN) BPF_ADJ_ROOM_NET ROOM_FLAGS
      else (0, w_skb w)) = (r1, s1)" by fastforce
  obtain r2 s2 where c2: "bpf_skb_change_proto K s1 (bpf_htons e ETH_P_IP) 0 = (r2, s2)" by fastforce
  obtain r3 s3 where c3: "bpf_skb_store_bytes K s2 14 (iphdr_bytes e (ingress_h4 e K R v)) STORE_FLAGS = (r3, s3)"
    by fastforce
  obtain r4 s4 where c4: "bpf_skb_store_bytes K s3 12 (st16 e (bpf_htons e ETH_P_IP)) 0 = (r4, s4)" by fastforce
  have ok: "\<not> r1 < 0" "\<not> r2 < 0" "\<not> r3 < 0" "\<not> r4 < 0" and w': "w_skb w' = s4"
    using assms(1) c1 c2 c3 c4 by (auto simp: ingress_reshape_def DROP_def Let_def split: if_splits)
  have s1: "54 \<le> length (pkt s1)" "take 14 (pkt s1) = take 14 ?p" "drop 54 (pkt s1) = drop ?n ?p"
    "protocol s1 = ETH_P_IPV6" "is_partial s1 = is_partial (w_skb w)"
    using ingress_frag_room [OF c1 ok(1) assms(2,3)] by simp_all
  have s2: "34 \<le> length (pkt s2)" "take 14 (pkt s2) = take 14 ?p" "drop 34 (pkt s2) = drop ?n ?p"
    "protocol s2 = ETH_P_IP" "is_partial s2 = is_partial (w_skb w)"
    using change_proto_64 [of s1 s2, unfolded c2] ok(2) s1 by simp_all
  have s3: "pkt s3 = overwrite 14 (iphdr_bytes e (ingress_h4 e K R v)) (pkt s2)"
    "protocol s3 = ETH_P_IP" "is_partial s3 = is_partial (w_skb w)"
    using store_ok [OF c3 ok(3)] s2 by simp_all
  have s4: "pkt s4 = overwrite 12 (net16 ETH_P_IP) (pkt s3)"
    "protocol s4 = ETH_P_IP" "is_partial s4 = is_partial (w_skb w)"
    using store_ok [OF c4 ok(4)] s3 by simp_all
  have t: "take 12 (pkt s2) = take 12 ?p" using take_eq_mono [OF s2(2), of 12] by simp
  have "pkt s4 = take 12 ?p @ net16 ETH_P_IP @ iphdr_bytes e (ingress_h4 e K R v) @ drop ?n ?p"
    using s2 assms(3) by (simp add: s4 s3 t overwrite_def)
  with w' s4 show ?thesis by simp
qed

text \<open>The header checksum verifies.\<close>

lemma h4_csum_fields:
  "h4_csum e K h = h\<lparr>ip_check := ip_check (h4_csum e K h)\<rparr>"
  by (simp add: h4_csum_def Let_def)

lemma h4_csum_ok:
  assumes "ip_version h = 4" and "ip_ihl h = 5"
  shows "inet_ok (iphdr_bytes e (h4_csum e K h))"
proof -
  let ?b = "iphdr_bytes e (h\<lparr>ip_check := 0\<rparr>)"
  define c where "c = csum_fold (word_of_int (bpf_csum_diff K [] ?b 0))"
  have b: "iphdr_bytes e (h4_csum e K h) = overwrite 10 (st16 e c) ?b"
    by (simp add: h4_csum_def c_def iphdr_bytes_def overwrite_def Let_def)
  have "eqc (uint c + uint (word_of_int (bpf_csum_diff K [] ?b 0) :: u32)) 0"
    unfolding c_def by (rule csum_fold_eqc)
  moreover have "eqc (uint (word_of_int (bpf_csum_diff K [] ?b 0) :: u32)) (int (nsum e ?b))"
    using csum_diff_wsum [of "[]" ?b 0] by simp
  ultimately have "eqc (uint c + int (nsum e ?b)) 0"
    by (meson eqc_add eqc_refl eqc_sym eqc_trans)
  moreover have "nsum e ?b \<noteq> 0"
    using ld16_nonzero_hi [of "0x45" e "ip_tos h"] by (simp add: iphdr_bytes_def assms)
  moreover have "window 10 2 ?b = [0, 0]" by (cases e) (simp_all add: iphdr_bytes_def window_def)
  ultimately show ?thesis unfolding b by (intro inet_ok_fill) simp_all
qed

end

section \<open>The header translation of RFC 7915\<close>

text \<open>The fields of an IPv6 frame, from its bytes in network order.\<close>

definition v6_tclass :: "bytes \<Rightarrow> u8" where
  "v6_tclass p = push_bit 4 (p ! 14) OR drop_bit 4 (p ! 15)"

definition v6_is_frag :: "bytes \<Rightarrow> bool" where
  "v6_is_frag p \<longleftrightarrow> p ! 20 = 44"

definition v6_nh :: "bytes \<Rightarrow> u8" where
  "v6_nh p = (if v6_is_frag p then p ! 54 else p ! 20)"

definition v6_frag_word :: "bytes \<Rightarrow> u16" where
  "v6_frag_word p = join16 (p ! 56) (p ! 57)"

definition v6_first :: "bytes \<Rightarrow> bool" where
  "v6_first p \<longleftrightarrow> (v6_is_frag p \<longrightarrow> drop_bit 3 (v6_frag_word p) = 0)"

definition v6_body :: "bytes \<Rightarrow> bytes" where
  "v6_body p = drop (54 + (if v6_is_frag p then 8 else 0)) p"

definition v6_len :: "bytes \<Rightarrow> nat" where
  "v6_len p = unat (join16 (p ! 18) (p ! 19)) - (if v6_is_frag p then 8 else 0)"

text \<open>
  The IPv4 header of the translation, with \<open>n\<close> bytes behind it and \<open>chk\<close> as its checksum:
  type of service from the traffic class, time to live from the hop limit, the IPv4 address
  embedded in the source, or \<open>ERR_IP4\<close> for a source outside the prefix, and the pod's own
  address as destination. A fragment keeps its offset and flag and the low half of its
  identification; other packets have identification zero and "don't fragment" set.
\<close>

definition rfc_proto4 :: "u8 \<Rightarrow> u8" where
  "rfc_proto4 nh = (if nh = 58 then 1 else nh)"

definition v6_mapped :: "byte_order \<Rightarrow> rodata \<Rightarrow> bytes \<Rightarrow> bool" where
  "v6_mapped e R p \<longleftrightarrow> window 22 12 p = take 12 (in6_bytes e (CLAT_PREFIX R))"

definition rfc_src4 :: "byte_order \<Rightarrow> rodata \<Rightarrow> bytes \<Rightarrow> bytes" where
  "rfc_src4 e R p = (if v6_mapped e R p then window 34 4 p else st32 e (ERR_IP4 R))"

definition rfc_dst4 :: "byte_order \<Rightarrow> rodata \<Rightarrow> bytes" where
  "rfc_dst4 e R = st32 e (POD_IP4 R)"

definition rfc_frag4 :: "bytes \<Rightarrow> bytes" where
  "rfc_frag4 p =
     (if v6_is_frag p
      then [p ! 60, p ! 61] @ net16 (drop_bit 3 (v6_frag_word p) OR (if odd (v6_frag_word p) then 0x2000 else 0))
      else [0, 0, 0x40, 0])"

definition rfc_header4 :: "byte_order \<Rightarrow> rodata \<Rightarrow> bytes \<Rightarrow> nat \<Rightarrow> bytes \<Rightarrow> bytes" where
  "rfc_header4 e R p n chk =
     [0x45, v6_tclass p] @ net16 (word_of_nat (n + 20)) @ rfc_frag4 p @
     [p ! 21, rfc_proto4 (v6_nh p)] @ chk @ rfc_src4 e R p @ rfc_dst4 e R"

definition rfc_frame4 :: "byte_order \<Rightarrow> rodata \<Rightarrow> bytes \<Rightarrow> nat \<Rightarrow> bytes \<Rightarrow> bytes \<Rightarrow> bytes" where
  "rfc_frame4 e R p n chk l4 = take 12 p @ [8, 0] @ rfc_header4 e R p n chk @ l4"

lemma rfc_frame4_append: "rfc_frame4 e R p n chk l4 = rfc_frame4 e R p n chk [] @ l4"
  by (simp add: rfc_frame4_def)

lemma length_rfc_header4: "38 \<le> length p \<Longrightarrow> length chk = 2 \<Longrightarrow> length (rfc_header4 e R p n chk) = 20"
  by (simp add: rfc_header4_def rfc_frag4_def rfc_src4_def rfc_dst4_def)

lemma length_rfc_frame4: "38 \<le> length p \<Longrightarrow> length chk = 2 \<Longrightarrow> length (rfc_frame4 e R p n chk []) = 34"
  by (simp add: rfc_frame4_def length_rfc_header4)

lemma window_window: "i + n \<le> k \<Longrightarrow> window i n (window j k p) = window (j + i) n p"
  by (simp add: window_def drop_take min_def add.commute)

lemma hdr6_fields:
  assumes "54 \<le> length p"
  shows "ip6_word0 (hdr6 e p) = ld32 e (p ! 14) (p ! 15) (p ! 16) (p ! 17)"
    "ip6_payload_len (hdr6 e p) = ld16 e (p ! 18) (p ! 19)"
    "ip6_nexthdr (hdr6 e p) = p ! 20" "ip6_hop_limit (hdr6 e p) = p ! 21"
    "ip6_saddr (hdr6 e p) = in6_of e (window 22 16 p)" "ip6_daddr (hdr6 e p) = in6_of e (window 38 16 p)"
  using assms by (simp_all add: hdr6_def ipv6hdr_of_def nth_window window_window)

lemma fhdr6_fields:
  assumes "62 \<le> length p"
  shows "fh_nexthdr (fhdr6 e p) = p ! 54" "fh_frag_off (fhdr6 e p) = ld16 e (p ! 56) (p ! 57)"
    "fh_identification (fhdr6 e p) = ld32 e (p ! 58) (p ! 59) (p ! 60) (p ! 61)"
  using assms by (simp_all add: fhdr6_def frag_hdr_of_def nth_window)

lemma in_prefix_v6: "54 \<le> length p \<Longrightarrow> in_prefix R (in6_of e (window 22 16 p)) = v6_mapped e R p"
  by (simp add: in_prefix_bytes [of _ _ e] in6_bytes_in6_of v6_mapped_def) (simp add: window_def)

lemma tclass_word: "ucast (drop_bit 20 (join32 (join16 a b) w)) = push_bit 4 a OR drop_bit 4 b"
  for a b :: u8
  unfolding join32_def join16_def by (rule bit_eqI) (auto simp: bit_simps dest: bit_imp_le_length)

lemma low_word: "ucast (join32 h l) = l"
  unfolding join32_def by (rule bit_eqI) (auto simp: bit_simps dest: bit_imp_le_length)

lemma and_1_odd: "w AND 1 \<noteq> 0 \<longleftrightarrow> odd w" for w :: u16
  by (simp add: and_one_eq mod2_eq_if)

lemma ingress_vars_fields:
  assumes "62 \<le> length p"
  shows "ig_saddr6 (ingress_vars e R p) = in6_of e (window 22 16 p)"
    "ig_daddr6 (ingress_vars e R p) = in6_of e (window 38 16 p)"
    "ig_src_mapped (ingress_vars e R p) = v6_mapped e R p"
    "ig_tos (ingress_vars e R p) = v6_tclass p" "ig_hop (ingress_vars e R p) = p ! 21"
    "ig_nh (ingress_vars e R p) = v6_nh p" "ig_payload_len (ingress_vars e R p) = v6_len p"
    "ig_id (ingress_vars e R p) = (if v6_is_frag p then join16 (p ! 60) (p ! 61) else 0)"
    "ig_frag4 (ingress_vars e R p) =
       (if v6_is_frag p then drop_bit 3 (v6_frag_word p) OR (if odd (v6_frag_word p) then 0x2000 else 0) else 0x4000)"
    "ig_is_frag (ingress_vars e R p) = v6_is_frag p" "ig_first (ingress_vars e R p) = v6_first p"
  using assms
  by (simp_all add: ingress_vars_def Let_def hdr6_fields fhdr6_fields in_prefix_v6 v6_tclass_def v6_nh_def
      v6_is_frag_def v6_len_def v6_first_def v6_frag_word_def tclass_word low_word and_1_odd const_defs)

definition valid_header4 :: "byte_order \<Rightarrow> rodata \<Rightarrow> bytes \<Rightarrow> nat \<Rightarrow> bytes \<Rightarrow> bool" where
  "valid_header4 e R p n chk \<longleftrightarrow> length chk = 2 \<and> inet_ok (rfc_header4 e R p n chk)"

text \<open>The header the program builds, for any number \<open>n\<close> of bytes behind it.\<close>

lemma header4_bytes:
  assumes "62 \<le> length p" and "h = (ingress_h4 e K R (ingress_vars e R p))\<lparr>ip_tot_len := bpf_htons e (word_of_nat (n + 20))\<rparr>"
  shows "iphdr_bytes e (h4_csum e K h) = rfc_header4 e R p n (st16 e (ip_check (h4_csum e K h)))"
proof -
  define c where "c = ip_check (h4_csum e K h)"
  have "h4_csum e K h = h\<lparr>ip_check := c\<rparr>" by (simp add: c_def h4_csum_def Let_def)
  moreover have "net16 0 = [0, 0]" "net16 0x4000 = [0x40, 0]" by (simp_all add: net16_def hi8_def lo8_def)
  ultimately show ?thesis
    using assms(1)
    by (simp add: assms(2) ingress_h4_def h4_csum_def Let_def c_def [symmetric] iphdr_bytes_def ingress_vars_fields
        rfc_header4_def rfc_frag4_def rfc_src4_def rfc_dst4_def rfc_proto4_def window_list4 net16_bytes
        in6_of_def nth_window const_defs)
qed

lemma ingress_h4_csum:
  "ingress_h4 e K R v = h4_csum e K ((ingress_h4 e K R v)\<lparr>ip_tot_len := bpf_htons e (word_of_nat (ig_payload_len v + 20))\<rparr>)"
  by (simp add: ingress_h4_def h4_csum_def ingress_tot_len_def Let_def)

section \<open>Reaching the transport stage\<close>

text \<open>A run that translates its packet, from a well-formed IPv6 buffer.\<close>

definition ingress_translates :: "byte_order \<Rightarrow> kernel \<Rightarrow> rodata \<Rightarrow> world \<Rightarrow> world \<Rightarrow> bool" where
  "ingress_translates e K R w w' \<longleftrightarrow>
     skb_wf (w_skb w) \<and> protocol (w_skb w) = ETH_P_IPV6 \<and> counters_ok w \<and>
     clat_ingress e K R w = Return TC_ACT_OK w' \<and>
     clat_counters w' = tick CNT_INGRESS_TRANSLATED (clat_counters w)"

lemma ingress_match_OK: "ingress_match e K R w = Return TC_ACT_OK w' \<Longrightarrow> clat_counters w' = clat_counters w"
  by (auto simp: ingress_match_def ingress_match_error_def bind_step_Return Let_def
      split: if_splits option.splits prod.splits)

lemma ingress_fields_OK: "ingress_fields e K a w \<noteq> Return TC_ACT_OK w'"
  by (auto simp: ingress_fields_def DROP_def Let_def split: if_splits option.splits prod.splits)

lemma ingress_checks_OK: "ingress_checks K v w \<noteq> Return TC_ACT_OK w'"
  by (auto simp: ingress_checks_def DROP_def)

lemma ingress_parse_OK: "ingress_parse e K R w = Return TC_ACT_OK w' \<Longrightarrow> clat_counters w' = clat_counters w"
  by (auto simp: ingress_parse_def bind_step_Return ingress_fields_OK ingress_checks_OK dest: ingress_match_OK)

lemma ingress_reshape_OK: "ingress_reshape e K R v w \<noteq> Return TC_ACT_OK w'"
  by (auto simp: ingress_reshape_def DROP_def Let_def split: if_splits prod.splits)

context bpf_kernel
begin

lemma header4_valid:
  assumes "62 \<le> length p" and "h = (ingress_h4 e K R (ingress_vars e R p))\<lparr>ip_tot_len := bpf_htons e (word_of_nat (n + 20))\<rparr>"
  obtains chk where "iphdr_bytes e (h4_csum e K h) = rfc_header4 e R p n chk" and "valid_header4 e R p n chk"
proof
  show b: "iphdr_bytes e (h4_csum e K h) = rfc_header4 e R p n (st16 e (ip_check (h4_csum e K h)))"
    by (rule header4_bytes [OF assms])
  have "ip_version h = 4" "ip_ihl h = 5" by (simp_all add: assms(2) ingress_h4_def h4_csum_def Let_def)
  from h4_csum_ok [OF this] show "valid_header4 e R p n (st16 e (ip_check (h4_csum e K h)))"
    by (simp add: valid_header4_def b)
qed

lemma ingress_h4_valid:
  assumes "62 \<le> length p"
  obtains chk where "iphdr_bytes e (ingress_h4 e K R (ingress_vars e R p)) = rfc_header4 e R p (v6_len p) chk"
    and "valid_header4 e R p (v6_len p) chk"
proof (rule header4_valid [OF assms refl, where R = R and n = "v6_len p"])
  have "ig_payload_len (ingress_vars e R p) = v6_len p" by (rule ingress_vars_fields(7) [OF assms])
  note h = ingress_h4_csum [of e K R "ingress_vars e R p", unfolded this, symmetric]
  fix chk
  assume "iphdr_bytes e (h4_csum e K ((ingress_h4 e K R (ingress_vars e R p))
      \<lparr>ip_tot_len := bpf_htons e (word_of_nat (v6_len p + 20))\<rparr>)) = rfc_header4 e R p (v6_len p) chk"
    and "valid_header4 e R p (v6_len p) chk"
  then show thesis using that [of chk] by (simp only: h)
qed

lemma ingress_at_l4:
  assumes "ingress_translates e K R w w'" and "p = pkt (w_skb w)"
  obtains u chk where "ingress_l4 e K R (ingress_vars e R p) 34 u = Return TC_ACT_OK w'"
    and "pkt (w_skb u) = rfc_frame4 e R p (v6_len p) chk [] @ v6_body p" and "valid_header4 e R p (v6_len p) chk"
    and "length (rfc_frame4 e R p (v6_len p) chk []) = 34"
    and "ingress_accepts e R p" and "62 \<le> length p" and "is_partial (w_skb u) = is_partial (w_skb w)"
    and "protocol (w_skb u) = ETH_P_IP"
proof -
  have wf: "skb_wf (w_skb w)" "protocol (w_skb w) = ETH_P_IPV6"
    and run: "clat_ingress e K R w = Return TC_ACT_OK w'" and "clat_counters w' \<noteq> clat_counters w"
    using assms(1) tick_neq by (auto simp: ingress_translates_def)
  then obtain v w1 u where st: "ingress_parse e K R w = Next (v, w1)" "ingress_reshape e K R v w1 = Next u"
      "ingress_l4 e K R v 34 u = Return TC_ACT_OK w'"
    by (auto simp: clat_ingress_def bind_step_Return ingress_reshape_OK dest: ingress_parse_OK)
  have w1: "pkt (w_skb w1) = p" "protocol (w_skb w1) = ETH_P_IPV6" "is_partial (w_skb w1) = is_partial (w_skb w)"
    and v: "v = ingress_vars e R p" and acc: "ingress_accepts e R p"
    using ingress_parse_Next [OF st(1) wf(1)] wf(2) by (simp_all add: same_packet_def assms(2))
  then have p: "62 \<le> length p" by (simp add: ingress_accepts_def ingress_matches_def Let_def)
  show thesis
  proof (rule ingress_h4_valid [OF p, of R, folded v])
    fix chk assume h: "iphdr_bytes e (ingress_h4 e K R v) = rfc_header4 e R p (v6_len p) chk"
      and ok: "valid_header4 e R p (v6_len p) chk"
    have "pkt (w_skb u) = rfc_frame4 e R p (v6_len p) chk [] @ v6_body p" "protocol (w_skb u) = ETH_P_IP"
      "is_partial (w_skb u) = is_partial (w_skb w)"
      using ingress_reshape_Next [OF st(2) w1(2)] p w1 h
      by (simp_all add: v ingress_vars_fields rfc_frame4_def v6_body_def net16_def eth_p_defs hi8_def lo8_def)
    moreover have "length (rfc_frame4 e R p (v6_len p) chk []) = 34"
      using ok p by (simp add: valid_header4_def length_rfc_frame4)
    ultimately show thesis using that st(3) ok acc p by (simp add: v)
  qed
qed

end

end
