(* ===== verification/Ingress_L4.thy ===== *)
theory Ingress_L4
  imports Ingress_Spec
begin

text \<open>
  The transport stage of \<open>clat_ingress\<close> for TCP, UDP and echo messages: what it changes
  behind the IPv4 header, and that the checksums it leaves verify against the IPv4
  pseudo-header (for ICMP, without one).
\<close>

section \<open>Pseudo-headers\<close>

lemma eqc_strip: "eqc (s + z) 0 \<Longrightarrow> eqc (d + x) (s + y) \<Longrightarrow> eqc (d + z + x) y"
  using eqc_diff [OF eqc_add [of "s + z" 0 "d + x" "s + y"] eqc_refl [of s]] by (simp add: algebra_simps)

lemma take_overwrite_inside:
  "k < m \<Longrightarrow> k + length ys \<le> m \<Longrightarrow> m \<le> length xs \<Longrightarrow> take m (overwrite k ys xs) = overwrite k ys (take m xs)"
  by (auto simp: overwrite_def drop_take min_def)

lemma eqc_replace:
  assumes "eqc (c' + d) c" and "eqc (d + z + x) y" and "eqc (z + x + c + r) 0"
  shows "eqc (y + c' + r) 0"
  using eqc_add [OF eqc_diff [OF eqc_add [OF assms(3,1)] assms(2)] eqc_refl [of "y - c"]]
  by (simp add: algebra_simps)

lemma ld16_eq_0_iff: "unat (ld16 e a b) = 0 \<longleftrightarrow> a = 0 \<and> b = 0"
  by (cases e) (auto simp: unat_join16 unsigned_eq_0_iff)

lemma nsum_eq_0_iff: "nsum e xs = 0 \<longleftrightarrow> (\<forall>x \<in> set xs. x = 0)"
  by (induction e xs rule: nsum.induct) (auto simp: ld16_eq_0_iff simp del: unsigned_eq_0_iff)

definition in_pseudo6 :: "bytes \<Rightarrow> nat \<Rightarrow> u8 \<Rightarrow> bytes" where
  "in_pseudo6 p n nh = window 22 32 p @ net32 (word_of_nat n) @ [0, 0, 0, nh]"

definition in_pseudo4 :: "byte_order \<Rightarrow> rodata \<Rightarrow> bytes \<Rightarrow> nat \<Rightarrow> u8 \<Rightarrow> bytes" where
  "in_pseudo4 e R p n pr = rfc_src4 e R p @ rfc_dst4 e R @ [0, pr] @ net16 (word_of_nat n)"

lemma even_in_pseudo:
  "54 \<le> length p \<Longrightarrow> even (length (in_pseudo6 p n nh))"
  "54 \<le> length p \<Longrightarrow> even (length (in_pseudo4 e R p n nh))"
  by (simp_all add: in_pseudo6_def in_pseudo4_def rfc_src4_def rfc_dst4_def)

lemma length_rfc_src4 [simp]: "54 \<le> length p \<Longrightarrow> length (rfc_src4 e R p) = 4"
  by (simp add: rfc_src4_def)

lemma length_rfc_dst4 [simp]: "length (rfc_dst4 e R) = 4"
  by (simp add: rfc_dst4_def)

lemma nsum_in_pseudo6:
  "54 \<le> length p \<Longrightarrow> n < 65536 \<Longrightarrow> nsum e (in_pseudo6 p n nh) =
     nsum e (window 22 32 p) + unat (ld16 e 0 nh) + nsum e (net16 (word_of_nat n))"
  by (cases e) (simp_all add: in_pseudo6_def nsum_append nsum_net16_pad)

lemma nsum_in_pseudo4:
  "54 \<le> length p \<Longrightarrow> nsum e (in_pseudo4 e R p n nh) =
     nsum e (rfc_src4 e R p @ rfc_dst4 e R) + unat (ld16 e 0 nh) + nsum e (net16 (word_of_nat n))"
  by (simp add: in_pseudo4_def nsum_append)

lemma nsum_in_pseudo4_nz: "54 \<le> length p \<Longrightarrow> nh \<noteq> 0 \<Longrightarrow> nsum e (in_pseudo4 e R p n nh) \<noteq> 0"
  using ld16_nonzero [of nh e] by (simp add: nsum_in_pseudo4)

lemma v6_len_less: "v6_len p < 65536"
  using unat_u16_less [of "join16 (p ! 18) (p ! 19)"] by (simp add: v6_len_def)

lemma window_32: "54 \<le> length p \<Longrightarrow> window 22 32 p = window 22 16 p @ window 38 16 p"
  using take_add [of 16 16 "drop 22 p"] by (simp add: window_def add.commute)

lemma src4_bytes:
  assumes "62 \<le> length p"
  shows "st32 e (ip_saddr (ingress_h4 e K R (ingress_vars e R p))) = rfc_src4 e R p"
    and "st32 e (ip_daddr (ingress_h4 e K R (ingress_vars e R p))) = rfc_dst4 e R"
  using assms by (simp_all add: ingress_h4_def h4_csum_def Let_def ingress_vars_fields rfc_src4_def rfc_dst4_def
      in6_of_def nth_window window_list4)

text \<open>The difference that strips the IPv6 pseudo-header.\<close>

definition strip_diff :: "kernel \<Rightarrow> bytes \<Rightarrow> u32" where
  "strip_diff K p = word_of_int (bpf_csum_diff K (in_pseudo6 p (v6_len p) 58) [] 0)"

context bpf_kernel
begin

lemma ingress_diff_eqc:
  assumes p: "62 \<le> length p" and n: "n < 65536"
  shows "eqc (uint (ingress_diff e K R (ingress_vars e R p)) + int (nsum e (in_pseudo6 p n nh)))
             (int (nsum e (in_pseudo4 e R p n nh)))"
proof -
  have p': "54 \<le> length p" using p by simp
  let ?v = "ingress_vars e R p" and ?m = "unat (ld16 e 0 nh) + nsum e (net16 (word_of_nat n))"
  have "in6_bytes e (prefix_copy (ig_saddr6 ?v)) @ in6_bytes e (prefix_copy (ig_daddr6 ?v)) = window 22 32 p"
    using p by (simp add: ingress_vars_fields in6_bytes_in6_of window_32)
  then have "eqc (uint (ingress_diff e K R ?v) + int (nsum e (window 22 32 p)))
      (int (nsum e (rfc_src4 e R p @ rfc_dst4 e R)))"
    using csum_diff_wsum [of "window 22 32 p" "rfc_src4 e R p @ rfc_dst4 e R" 0] p
    by (simp add: ingress_diff_def src4_bytes)
  then have "eqc (uint (ingress_diff e K R ?v) + int (nsum e (window 22 32 p)) + int ?m)
      (int (nsum e (rfc_src4 e R p @ rfc_dst4 e R)) + int ?m)"
    by (intro eqc_add) simp_all
  then show ?thesis by (simp add: nsum_in_pseudo4 [OF p'] nsum_in_pseudo6 [OF p' n] algebra_simps)
qed

lemma ingress_csum_replace_OK:
  assumes "ingress_csum_replace K (length pre + k) diff flags u = Return TC_ACT_OK w'"
    and "pkt (w_skb u) = pre @ l4" and "flags AND 0xf = 0" and "has_flag flags BPF_F_PSEUDO_HDR"
  obtains c' where "pkt (w_skb w') = pre @ overwrite k (st16 e c') l4" and "k + 2 \<le> length l4"
    and "l4_update (is_partial (w_skb u)) flags (ld16 e (l4 ! k) (l4 ! Suc k)) (ucast diff) c'"
    and "is_partial (w_skb w') = is_partial (w_skb u)"
proof -
  obtain rc s where c: "bpf_l4_csum_replace K (w_skb u) (length pre + k) 0 (ucast diff) flags = (rc, s)"
    by fastforce
  have rc: "\<not> rc < 0" and w': "w_skb w' = s"
    using assms(1) by (auto simp: ingress_csum_replace_def c ingress_done_def DROP_def Let_def split: if_splits)
  obtain c' where "pkt s = overwrite (length pre + k) (st16 e c') (pre @ l4)" "length pre + k + 2 \<le> length (pre @ l4)"
    "l4_update (is_partial (w_skb u)) flags (ld16 e ((pre @ l4) ! (length pre + k)) ((pre @ l4) ! Suc (length pre + k)))
       (ucast diff) c'" "is_partial s = is_partial (w_skb u)"
    using l4_csum [of "w_skb u" "length pre + k" "ucast diff" flags s, unfolded c] rc assms(2-4) by auto
  then show thesis
    using that [of c'] w' by (simp add: overwrite_append_right nth_append)
qed

section \<open>The transport stage by protocol\<close>

lemma ingress_csum_frame:
  assumes "ingress_translates e K R w w'" and "p = pkt (w_skb w)" and "v6_first p"
    and "v6_nh p = 6 \<and> k = 16 \<and> flags = BPF_F_PSEUDO_HDR \<or>
         v6_nh p = 17 \<and> k = 6 \<and> flags = BPF_F_PSEUDO_HDR OR BPF_F_MARK_MANGLED_0"
  obtains c' chk where
    "pkt (w_skb w') = rfc_frame4 e R p (v6_len p) chk [] @ overwrite k (st16 e c') (v6_body p)"
    and "valid_header4 e R p (v6_len p) chk" and "k + 2 \<le> length (v6_body p)" and "62 \<le> length p"
    and "l4_update (is_partial (w_skb w)) flags (ld16 e (v6_body p ! k) (v6_body p ! Suc k))
           (ucast (ingress_diff e K R (ingress_vars e R p))) c'"
    and "v6_nh p = 17 \<longrightarrow> ld16 e (v6_body p ! k) (v6_body p ! Suc k) \<noteq> 0"
proof (rule ingress_at_l4 [OF assms(1,2)])
  fix u chk let ?v = "ingress_vars e R p" and ?h = "rfc_frame4 e R p (v6_len p) chk []"
  assume u: "ingress_l4 e K R ?v 34 u = Return TC_ACT_OK w'" "pkt (w_skb u) = ?h @ v6_body p"
    "length ?h = 34" "is_partial (w_skb u) = is_partial (w_skb w)" and p: "62 \<le> length p"
    and chk: "valid_header4 e R p (v6_len p) chk"
  have fl: "flags AND 0xf = 0" "has_flag flags BPF_F_PSEUDO_HDR"
    using assms(4) tcp_flags udp_flags by auto
  have "ingress_csum_replace K (length ?h + k) (ingress_diff e K R ?v) flags u = Return TC_ACT_OK w' \<and>
      (v6_nh p = 17 \<longrightarrow> ld16 e (v6_body p ! k) (v6_body p ! Suc k) \<noteq> 0)"
  proof (cases "v6_nh p = 6")
    case True
    with u(1,3) assms(3,4) p show ?thesis by (simp add: ingress_l4_def ingress_vars_fields Let_def)
  next
    case False
    with assms(4) have k: "v6_nh p = 17" "k = 6" "flags = BPF_F_PSEUDO_HDR OR BPF_F_MARK_MANGLED_0" by auto
    obtain rc b where ld: "bpf_skb_load_bytes K (w_skb u) 40 2 = (rc, b)" by fastforce
    have run: "ingress_udp e K 34 (ingress_diff e K R ?v) u = Return TC_ACT_OK w'"
      using u(1) assms(3) p k(1) by (simp add: ingress_l4_def ingress_vars_fields Let_def)
    then have rc: "\<not> rc < 0" by (auto simp: ingress_udp_def ld DROP_def)
    from load_ok [OF ld rc] have "42 \<le> length (pkt (w_skb u))" "b = window 40 2 (pkt (w_skb u))" by simp_all
    then have b: "b ! 0 = v6_body p ! 6" "b ! 1 = v6_body p ! 7"
      by (simp_all add: nth_window u(2,3) nth_append)
    show ?thesis
      using run rc k u(3) b by (auto simp: ingress_udp_def ld DROP_def split: if_splits)
  qed
  then have run: "ingress_csum_replace K (length ?h + k) (ingress_diff e K R ?v) flags u = Return TC_ACT_OK w'"
    and z: "v6_nh p = 17 \<longrightarrow> ld16 e (v6_body p ! k) (v6_body p ! Suc k) \<noteq> 0" by blast+
  show thesis
    by (rule ingress_csum_replace_OK [OF run u(2) fl]) (use that [OF _ chk _ p _ z] u(4) in simp)
qed

lemma ingress_other_frame:
  assumes "ingress_translates e K R w w'" and "p = pkt (w_skb w)" and "\<not> v6_first p \<or> v6_nh p \<notin> {58, 6, 17}"
  obtains chk where "pkt (w_skb w') = rfc_frame4 e R p (v6_len p) chk [] @ v6_body p"
    and "valid_header4 e R p (v6_len p) chk"
proof (rule ingress_at_l4 [OF assms(1,2)])
  fix u chk let ?h = "rfc_frame4 e R p (v6_len p) chk []"
  assume u: "ingress_l4 e K R (ingress_vars e R p) 34 u = Return TC_ACT_OK w'" "pkt (w_skb u) = ?h @ v6_body p"
    "62 \<le> length p" "valid_header4 e R p (v6_len p) chk"
  then have "ingress_done K u = Return TC_ACT_OK w'"
    using assms(3) by (auto simp: ingress_l4_def ingress_vars_fields Let_def split: if_splits)
  with u(2,4) that show ?thesis by (auto simp: ingress_done_def)
qed

text \<open>A checksum that is valid for the IPv6 pseudo-header is carried over to the IPv4 one.\<close>

lemma ingress_carry_valid:
  assumes p: "62 \<le> length p" and n: "n < 65536" and nh: "nh \<noteq> 0"
    and k: "even k" "k + 2 \<le> m" "m \<le> length l4"
    and c': "eqc (uint c' + uint (ingress_diff e K R (ingress_vars e R p))) (uint (ld16 e (l4 ! k) (l4 ! Suc k)))"
    and ok: "inet_ok (in_pseudo6 p n nh @ take m l4 @ rest)"
  shows "inet_ok (in_pseudo4 e R p n nh @ take m (overwrite k (st16 e c') l4) @ rest)"
proof -
  have "inet_ok (in_pseudo4 e R p n nh @ overwrite k (st16 e c') (take m l4 @ rest))"
  proof (rule inet_ok_update [OF ok])
    show "window k 2 (take m l4 @ rest) = st16 e (ld16 e (l4 ! k) (l4 ! Suc k))"
      using k window2_st16 [of k l4] by (simp add: window_def drop_take)
  qed (use k c' p n nh nsum_in_pseudo4_nz ingress_diff_eqc [OF p n] even_in_pseudo in simp_all)
  moreover have "overwrite k (st16 e c') (take m l4 @ rest) = take m (overwrite k (st16 e c') l4) @ rest"
    using k by (simp add: overwrite_def drop_take min_def)
  ultimately show ?thesis by simp
qed

section \<open>ICMPv6\<close>

lemma pseudo6_of_bytes:
  assumes "54 \<le> length p"
  shows "pseudo6_bytes e (pseudo6_of e (in6_of e (window 22 16 p)) (in6_of e (window 38 16 p)) n) = in_pseudo6 p n 58"
proof -
  have "net32 58 = [0, 0, 0, 58]" by (simp add: net32_def hi16_def lo16_def hi8_def lo8_def)
  with assms show ?thesis
    by (simp add: pseudo6_bytes_def pseudo6_of_def in_pseudo6_def in6_bytes_in6_of window_32 const_defs)
qed

lemma strip_diff_eqc:
  "54 \<le> length p \<Longrightarrow> eqc (uint (strip_diff K p) + int (nsum e (in_pseudo6 p (v6_len p) 58))) 0"
  using csum_diff_wsum [of "in_pseudo6 p (v6_len p) 58" "[]" 0]
  by (simp add: strip_diff_def in_pseudo6_def)

lemma ingress_icmp_at:
  assumes "ingress_translates e K R w w'" and "p = pkt (w_skb w)" and "v6_nh p = 58"
  obtains u chk where
    "(if v6_body p ! 0 = 129 \<or> v6_body p ! 0 = 128 then ingress_echo e K 34 (take 8 (v6_body p)) (strip_diff K p) u
      else ingress_error e K R (ingress_vars e R p) 34 (take 8 (v6_body p)) (strip_diff K p) u) = Return TC_ACT_OK w'"
    and "pkt (w_skb u) = rfc_frame4 e R p (v6_len p) chk [] @ v6_body p" and "valid_header4 e R p (v6_len p) chk"
    and "length (rfc_frame4 e R p (v6_len p) chk []) = 34" and "ingress_accepts e R p" and "62 \<le> length p"
    and "is_partial (w_skb u) = is_partial (w_skb w)" and "protocol (w_skb u) = ETH_P_IP"
    and "8 \<le> length (v6_body p)" and "\<not> v6_is_frag p"
proof (rule ingress_at_l4 [OF assms(1,2)])
  fix u chk let ?v = "ingress_vars e R p" and ?h = "rfc_frame4 e R p (v6_len p) chk []"
  assume u: "ingress_l4 e K R ?v 34 u = Return TC_ACT_OK w'" "pkt (w_skb u) = ?h @ v6_body p"
    "valid_header4 e R p (v6_len p) chk" "length ?h = 34" "ingress_accepts e R p" "62 \<le> length p"
    "is_partial (w_skb u) = is_partial (w_skb w)" "protocol (w_skb u) = ETH_P_IP"
  have p: "54 \<le> length p" using u(6) by simp
  have nf: "\<not> v6_is_frag p" using u(5,6) assms(3) by (simp add: ingress_accepts_def ingress_vars_fields Let_def)
  then have run: "ingress_icmp e K R ?v 34 u = Return TC_ACT_OK w'"
    using u(1,6) assms(3) by (simp add: ingress_l4_def ingress_vars_fields v6_first_def Let_def)
  obtain rc hdr where ld: "bpf_skb_load_bytes K (w_skb u) 34 8 = (rc, hdr)" by fastforce
  with run have rc: "\<not> rc < 0" by (auto simp: ingress_icmp_def DROP_def)
  from load_ok [OF ld rc] u(2,4) have b: "8 \<le> length (v6_body p)" "hdr = take 8 (v6_body p)"
    by (simp_all add: window_def)
  have "hdr ! 0 = v6_body p ! 0" using b by simp
  then show thesis
    using that [OF _ u(2-8) b(1) nf] run rc
    by (simp add: ingress_icmp_def ld ingress_vars_fields [OF u(6)] pseudo6_of_bytes [OF p] Let_def
        strip_diff_def b(2) cong: if_cong)
qed

lemma type_diff_eqc:
  "eqc (uint (word_of_int (bpf_csum_diff K (st32 e (type_word e t c)) (st32 e (type_word e t' c)) s) :: u32) +
        int (nsum e [t, c])) (uint s + int (nsum e [t', c]))"
  using csum_diff_type [of t c t' s] by (simp add: type_word_def)

lemma ingress_echo_frame:
  assumes "ingress_translates e K R w w'" and "p = pkt (w_skb w)" and "v6_nh p = 58"
    and "v6_body p ! 0 = 129 \<or> v6_body p ! 0 = 128"
  defines "t \<equiv> if v6_body p ! 0 = 129 then 0 else 8"
  obtains c' chk and d :: u32 where
    "pkt (w_skb w') = rfc_frame4 e R p (v6_len p) chk [] @ overwrite 2 (st16 e c') (overwrite 0 [t] (v6_body p))"
    and "valid_header4 e R p (v6_len p) chk" and "8 \<le> length (v6_body p)" and "62 \<le> length p"
    and "l4_update (is_partial (w_skb w)) BPF_F_PSEUDO_HDR (ld16 e (v6_body p ! 2) (v6_body p ! 3)) (ucast d) c'"
    and "eqc (uint d + int (nsum e (in_pseudo6 p (v6_len p) 58)) + int (nsum e [v6_body p ! 0, v6_body p ! 1]))
             (int (nsum e [t, v6_body p ! 1]))"
proof (rule ingress_icmp_at [OF assms(1-3)])
  fix u chk let ?h = "rfc_frame4 e R p (v6_len p) chk []" and ?b = "v6_body p"
  let ?P = "int (nsum e (in_pseudo6 p (v6_len p) 58))"
  assume u: "(if ?b ! 0 = 129 \<or> ?b ! 0 = 128 then ingress_echo e K 34 (take 8 ?b) (strip_diff K p) u
      else ingress_error e K R (ingress_vars e R p) 34 (take 8 ?b) (strip_diff K p) u) = Return TC_ACT_OK w'"
    "pkt (w_skb u) = ?h @ ?b" "valid_header4 e R p (v6_len p) chk" "length ?h = 34" "62 \<le> length p"
    "is_partial (w_skb u) = is_partial (w_skb w)" "8 \<le> length ?b"
  have run: "ingress_echo e K 34 (take 8 ?b) (strip_diff K p) u = Return TC_ACT_OK w'" using u(1) assms(4) by simp
  define d where "d = (word_of_int (bpf_csum_diff K (st32 e (type_word e (?b ! 0) (?b ! 1)))
    (st32 e (type_word e t (?b ! 1))) (strip_diff K p)) :: u32)"
  have t: "(if take 8 ?b ! 0 = ICMPV6_ECHO_REPLY then ICMP_ECHOREPLY else ICMP_ECHO) = t"
    using u(7) by (simp add: t_def const_defs)
  obtain rc s where st: "bpf_skb_store_bytes K (w_skb u) 34 [t] STORE_FLAGS = (rc, s)" by fastforce
  have rc: "\<not> rc < 0" and run2: "ingress_csum_replace K (length ?h + 2) d BPF_F_PSEUDO_HDR (u\<lparr>w_skb := s\<rparr>) = Return TC_ACT_OK w'"
    using run u(4,7) unfolding ingress_echo_def t by (auto simp: st d_def DROP_def Let_def split: if_splits)
  have s: "pkt (w_skb (u\<lparr>w_skb := s\<rparr>)) = ?h @ overwrite 0 [t] ?b" "is_partial s = is_partial (w_skb u)"
    using store_ok [OF st rc] overwrite_append_right [of 0 "[t]" ?b ?h] u(2,4,7) by simp_all
  have "eqc (uint d + int (nsum e [?b ! 0, ?b ! 1])) (uint (strip_diff K p) + int (nsum e [t, ?b ! 1]))"
    unfolding d_def by (rule type_diff_eqc)
  with strip_diff_eqc [of p] u(5) have d: "eqc (uint d + ?P + int (nsum e [?b ! 0, ?b ! 1])) (int (nsum e [t, ?b ! 1]))"
    by (intro eqc_strip) simp_all
  have o: "overwrite 0 [t] ?b ! 2 = ?b ! 2" "overwrite 0 [t] ?b ! Suc 2 = ?b ! 3"
    using u(7) nth_overwrite_other [of 2 0 "[t]" ?b] nth_overwrite_other [of 3 0 "[t]" ?b] by (simp_all add: numeral_3_eq_3 numeral_2_eq_2)
  show thesis
    by (rule ingress_csum_replace_OK [OF run2 s(1) tcp_flags(1,2)])
      (use that [OF _ u(3,7,5) _ d] s(2) u(6) o in simp)
qed

text \<open>The checksum of an echo message, without its pseudo-header.\<close>

lemma echo_valid:
  assumes ps: "even (length ps)" and m: "4 \<le> m" "m \<le> length l4"
    and c': "eqc (uint c' + uint (d :: u32)) (uint (ld16 e (l4 ! 2) (l4 ! 3)))"
    and d: "eqc (uint d + int (nsum e ps) + int (nsum e [l4 ! 0, l4 ! 1])) (int (nsum e [t, l4 ! 1]))"
    and ok: "inet_ok (ps @ take m l4)"
    and nz: "t \<noteq> 0 \<or> (\<exists>x \<in> set (l4 ! 1 # drop 4 (take m l4)). x \<noteq> 0)"
  shows "inet_ok (take m (overwrite 2 (st16 e c') (overwrite 0 [t] l4)))"
proof -
  define r where "r = drop 4 (take m l4)"
  have l4: "take m l4 = [l4 ! 0, l4 ! 1] @ [l4 ! 2, l4 ! 3] @ r"
    using m window_list4 [of 0 l4] append_take_drop_id [of 4 "take m l4"]
    by (simp add: r_def window_def min_def numeral_2_eq_2)
  have o: "take m (overwrite 2 (st16 e c') (overwrite 0 [t] l4)) = [t, l4 ! 1] @ st16 e c' @ r"
  proof -
    have "take m (overwrite 2 (st16 e c') (overwrite 0 [t] l4)) = overwrite 2 (st16 e c') (overwrite 0 [t] (take m l4))"
      using m by (simp add: take_overwrite_inside)
    then show ?thesis by (simp add: l4 overwrite_def numeral_2_eq_2)
  qed
  have "eqc (int (nsum e ps) + int (nsum e [l4 ! 0, l4 ! 1]) + uint (ld16 e (l4 ! 2) (l4 ! 3)) + int (nsum e r)) 0"
    using ok ps by (simp add: inet_ok_iff [of _ e] nsum_append l4 add.assoc)
  then have "eqc (int (nsum e [t, l4 ! 1]) + uint c' + int (nsum e r)) 0"
    by (rule eqc_replace [OF c' d])
  moreover have "nsum e [t, l4 ! 1] + nsum e r \<noteq> 0"
    using nz by (auto simp: r_def [symmetric] nsum_eq_0_iff ld16_nonzero_hi ld16_eq_0_iff)
  ultimately show ?thesis
    unfolding o by (auto simp: inet_ok_iff [of _ e] nsum_append add.assoc)
qed

end

end
