(* ===== verification/Ingress_Error.thy ===== *)
theory Ingress_Error
  imports Ingress_L4
begin

text \<open>
  ICMPv6 errors in \<open>clat_ingress\<close>: the quoted packet is translated along with the error
  that quotes it. For an error frame \<open>p\<close>, \<open>quote p\<close> is the quoted packet seen as a frame,
  so that the field functions of IPv6 frames apply to it.
\<close>

section \<open>The quoted packet\<close>

definition quote :: "bytes \<Rightarrow> bytes" where
  "quote p = drop 48 p"

definition quoted_vars :: "byte_order \<Rightarrow> bytes \<Rightarrow> quoted" where
  "quoted_vars e z =
     \<lparr>q_in6 = hdr6 e z, q_old = window 14 (40 + (if v6_is_frag z then 8 else 0)) z, q_nh = v6_nh z,
      q_id = (if v6_is_frag z then join16 (z ! 60) (z ! 61) else 0),
      q_frag4 = (if v6_is_frag z then drop_bit 3 (v6_frag_word z) OR (if odd (v6_frag_word z) then 0x2000 else 0)
                 else 0x4000),
      q_frag = v6_is_frag z\<rparr>"

text \<open>The total length of the quoted packet as IPv4, and how much shorter its headers get.\<close>

definition quoted_tot_len :: "bytes \<Rightarrow> nat" where
  "quoted_tot_len z = unat (join16 (z ! 18) (z ! 19)) + 20 - (if v6_is_frag z then 8 else 0)"

definition quoted_cut :: "bytes \<Rightarrow> nat" where
  "quoted_cut z = 20 + (if v6_is_frag z then 8 else 0)"

definition rfc_quoted4 :: "byte_order \<Rightarrow> rodata \<Rightarrow> bytes \<Rightarrow> bytes \<Rightarrow> bytes" where
  "rfc_quoted4 e R z chk =
     [0x45, v6_tclass z] @ net16 (word_of_nat (quoted_tot_len z)) @ rfc_frag4 z @
     [z ! 21, rfc_proto4 (v6_nh z)] @ chk @ rfc_dst4 e R @ window 50 4 z"

definition quoted_ok :: "byte_order \<Rightarrow> rodata \<Rightarrow> bytes \<Rightarrow> bool" where
  "quoted_ok e R z \<longleftrightarrow>
     54 + (if v6_is_frag z then 8 else 0) \<le> length z \<and> clat_flow e R (hdr6 e z) \<and> \<not> is_ext_hdr (v6_nh z)"

lemma v6_body_nofrag: "\<not> v6_is_frag p \<Longrightarrow> v6_body p = drop 54 p"
  by (simp add: v6_body_def)

lemma window_quote: "\<not> v6_is_frag p \<Longrightarrow> window (i + 6) n (quote p) = window i n (v6_body p)"
  by (simp add: v6_body_def quote_def window_def add.commute)

lemma drop_quote: "\<not> v6_is_frag p \<Longrightarrow> v6_body (quote p) = drop (28 + quoted_cut (quote p)) (v6_body p)"
  by (simp add: v6_body_def [of p] v6_body_def [of "quote p"]) (simp add: quote_def quoted_cut_def)

context bpf_kernel
begin

lemma ingress_quoted_Next:
  assumes "ingress_quoted e K R 34 u = Next q" and "pkt (w_skb u) = h @ v6_body p" and "length h = 34"
    and "\<not> v6_is_frag p" and "62 \<le> length p"
  shows "q = quoted_vars e (quote p) \<and> quoted_ok e R (quote p)"
proof -
  let ?z = "quote p"
  obtain rc b where ld: "bpf_skb_load_bytes K (w_skb u) 42 40 = (rc, b)" by fastforce
  have rc: "\<not> rc < 0" using assms(1) by (auto simp: ingress_quoted_def ld DROP_def)
  from load_ok [OF ld rc] have l: "48 \<le> length (v6_body p)" and b: "b = window 8 40 (v6_body p)"
    by (simp_all add: assms(2,3) window_def)
  have z: "54 \<le> length ?z" using l assms(4,5) by (simp add: v6_body_nofrag quote_def)
  have b': "ipv6hdr_of e (window 14 40 ?z) = hdr6 e ?z" and b14: "b = window 14 40 ?z"
    using window_quote [OF assms(4), of 8 40] by (simp_all add: b hdr6_def)
  have flow: "clat_flow e R (hdr6 e ?z)"
    using assms(1) rc by (auto simp: ingress_quoted_def ld b14 b' clat_flow_def DROP_def Let_def split: if_splits)
  show ?thesis
  proof (cases "v6_is_frag ?z")
    case False
    then have "ip6_nexthdr (hdr6 e ?z) \<noteq> IPPROTO_FRAGMENT" using z by (simp add: hdr6_fields v6_is_frag_def const_defs)
    with assms(1) rc flow False z show ?thesis
      by (auto simp: ingress_quoted_def ld b' b14 clat_flow_def DROP_def Let_def quoted_vars_def quoted_ok_def
          hdr6_fields v6_nh_def const_defs split: if_splits)
  next
    case True
    then have nh: "ip6_nexthdr (hdr6 e ?z) = IPPROTO_FRAGMENT" using z by (simp add: hdr6_fields v6_is_frag_def const_defs)
    obtain rc2 f where ld2: "bpf_skb_load_bytes K (w_skb u) 82 8 = (rc2, f)" by fastforce
    have rc2: "\<not> rc2 < 0" using assms(1) rc flow nh by (auto simp: ingress_quoted_def ld b14 b' clat_flow_def ld2 DROP_def Let_def)
    from load_ok [OF ld2 rc2] have l2: "56 \<le> length (v6_body p)" and f: "f = window 48 8 (v6_body p)"
      by (simp_all add: assms(2,3) window_def)
    have z2: "62 \<le> length ?z" using l2 assms(4,5) by (simp add: v6_body_nofrag quote_def)
    have f': "frag_hdr_of e (window 54 8 ?z) = fhdr6 e ?z" and f54: "f = window 54 8 ?z"
      using window_quote [OF assms(4), of 48 8] by (simp_all add: f fhdr6_def)
    have "window 14 40 ?z @ window 54 8 ?z = window 14 48 ?z"
      using take_add [of 40 8 "drop 14 ?z"] by (simp add: window_def add.commute)
    with assms(1) rc rc2 flow True nh z2 show ?thesis
      by (auto simp: ingress_quoted_def ld ld2 b' b14 f' f54 clat_flow_def DROP_def Let_def quoted_vars_def quoted_ok_def
          fhdr6_fields v6_nh_def v6_frag_word_def low_word and_1_odd const_defs split: if_splits)
  qed
qed

end

text \<open>
  The ICMPv4 header of a translated error, with its checksum still zero: \<open>b\<close> is the ICMPv6
  message. A Packet Too Big carries its MTU less what the headers lose, but at least 68; a
  parameter problem the translated pointer.
\<close>

definition rfc_mtu :: "bytes \<Rightarrow> nat \<Rightarrow> nat" where
  "rfc_mtu z mtu = max 68 (min 65535 mtu - quoted_cut z)"

definition word4 :: "bytes \<Rightarrow> u32" where
  "word4 b = join32 (join16 (b ! 4) (b ! 5)) (join16 (b ! 6) (b ! 7))"

definition rfc_error4 :: "bytes \<Rightarrow> bytes \<Rightarrow> bytes" where
  "rfc_error4 b z =
     (let (m, ptr) = icmp6_to_icmp4 (b ! 0) (b ! 1) (word4 b) 0
      in [m_type m, m_code m, 0, 0] @
         (if b ! 0 = 2 then [0, 0] @ net16 (word_of_nat (rfc_mtu z (unat (word4 b))))
          else if m_type m = 12 then [ucast ptr, 0, 0, 0] else [0, 0, 0, 0]))"

lemma frag_mtu_nat: "unat (frag_mtu f mtu) = max 68 (min 65535 (unat mtu) - (20 + (if f then 8 else 0)))"
proof -
  have "unat (x - y) = unat x - unat y" if "y \<le> x" for x y :: u32 using that by (simp add: unat_sub)
  then show ?thesis by (auto simp: frag_mtu_def word_less_nat_alt word_le_nat_alt Let_def max_def min_def)
qed

lemma pointer_bytes: "net32 (push_bit 24 w) = [ucast w, 0, 0, 0]"
proof -
  have "push_bit 24 w = join32 (join16 (ucast w) 0) (join16 0 0)"
    unfolding join32_def join16_def by (rule bit_eqI) (auto simp: bit_simps)
  then show ?thesis by (simp add: net32_def)
qed

lemma error_icmp4_bytes:
  assumes "icmp6_to_icmp4 (b ! 0) (b ! 1) (word4 b) 0 = (m, ptr)" and "8 \<le> length b"
  shows "icmphdr_bytes e (error_icmp4 e (take 8 b) m ptr (quoted_vars e z)) = rfc_error4 b z"
proof -
  have "(ucast (frag_mtu (v6_is_frag z) (word4 b)) :: u16) = word_of_nat (rfc_mtu z (unat (word4 b)))"
    unfolding rfc_mtu_def quoted_cut_def frag_mtu_nat [symmetric] by simp
  moreover have "st16 e 0 = [0, 0]" "st32 e 0 = [0, 0, 0, 0]"
    by (cases e; simp add: hi16_def lo16_def hi8_def lo8_def)+
  ultimately show ?thesis
    using assms by (simp add: rfc_error4_def icmphdr_bytes_def error_icmp4_def hdr_word_def word4_def quoted_vars_def
        pointer_bytes const_defs)
qed

lemma quoted_in4_bytes:
  assumes "quoted_ok e R z"
  shows "iphdr_bytes e (quoted_in4 e K R (quoted_vars e z)) =
    rfc_quoted4 e R z (st16 e (ip_check (quoted_in4 e K R (quoted_vars e z))))"
proof -
  define c where "c = ip_check (quoted_in4 e K R (quoted_vars e z))"
  have z: "54 \<le> length z" using assms by (simp add: quoted_ok_def)
  have "word_of_nat (quoted_tot_len z) = join16 (z ! 18) (z ! 19) + 20 - (if v6_is_frag z then 8 else 0)"
    by (simp add: quoted_tot_len_def of_nat_diff)
  moreover have "net16 0 = [0, 0]" "net16 0x4000 = [0x40, 0]" by (simp_all add: net16_def hi8_def lo8_def)
  ultimately show ?thesis
    using z unfolding c_def [symmetric]
    by (simp add: quoted_in4_def h4_csum_def Let_def iphdr_bytes_def rfc_quoted4_def quoted_vars_def
        hdr6_fields rfc_frag4_def rfc_dst4_def rfc_proto4_def tclass_word v6_tclass_def net16_bytes
        window_list4 in6_of_def nth_window c_def)
qed

text \<open>The differences that the quoted transport checksum is adjusted by.\<close>

definition quoted_strip :: "byte_order \<Rightarrow> kernel \<Rightarrow> bytes \<Rightarrow> u8 \<Rightarrow> u8 \<Rightarrow> u8 \<Rightarrow> u32" where
  "quoted_strip e K z t nt c =
     word_of_int (bpf_csum_diff K (st32 e (type_word e t c)) (st32 e (type_word e nt c)) (strip_diff K z))"

definition quoted_diff :: "byte_order \<Rightarrow> kernel \<Rightarrow> rodata \<Rightarrow> bytes \<Rightarrow> u32" where
  "quoted_diff e K R z = word_of_int (bpf_csum_diff K (window 22 32 z) (rfc_dst4 e R @ window 50 4 z) 0)"

definition quoted_pseudo4 :: "byte_order \<Rightarrow> rodata \<Rightarrow> bytes \<Rightarrow> nat \<Rightarrow> u8 \<Rightarrow> bytes" where
  "quoted_pseudo4 e R z n pr = rfc_dst4 e R @ window 50 4 z @ [0, pr] @ net16 (word_of_nat n)"

text \<open>
  What may become of the bytes \<open>r\<close> behind the quoted headers. \<open>loaded\<close> says whether the
  checksum field could be read; an error may quote too little for it.
\<close>

definition quoted_coff :: "bytes \<Rightarrow> nat" where
  "quoted_coff z = (if v6_nh z = 17 then 6 else if v6_nh z = 6 then 16 else 0)"

inductive quoted_edit :: "byte_order \<Rightarrow> kernel \<Rightarrow> rodata \<Rightarrow> bytes \<Rightarrow> bool \<Rightarrow> bytes \<Rightarrow> bytes \<Rightarrow> bool"
  for e K R z loaded r where
  keep: "(v6_nh z = 58 \<and> \<not> v6_is_frag z \<longrightarrow> r ! 0 \<notin> {128, 129}) \<Longrightarrow>
    (quoted_coff z \<noteq> 0 \<and> v6_first z \<and> loaded \<longrightarrow> ld16 e (r ! quoted_coff z) (r ! (quoted_coff z + 1)) = 0) \<Longrightarrow>
    quoted_edit e K R z loaded r r"
| echo: "v6_nh z = 58 \<Longrightarrow> \<not> v6_is_frag z \<Longrightarrow> (r ! 0, nt) \<in> {(128, 8), (129, 0)} \<Longrightarrow> 4 \<le> length r \<Longrightarrow>
    nc = quoted_csum (quoted_strip e K z (r ! 0) nt (r ! 1)) (ld16 e (r ! 2) (r ! 3)) \<Longrightarrow>
    quoted_edit e K R z loaded r (overwrite 2 (st16 e nc) (overwrite 0 [nt] r))"
| field: "k = quoted_coff z \<Longrightarrow> k \<noteq> 0 \<Longrightarrow> v6_first z \<Longrightarrow> k + 2 \<le> length r \<Longrightarrow>
    c = ld16 e (r ! k) (r ! (k + 1)) \<Longrightarrow> c \<noteq> 0 \<Longrightarrow> nc = quoted_csum (quoted_diff e K R z) c \<Longrightarrow>
    quoted_edit e K R z loaded r (overwrite k (st16 e nc) r)"

lemma quoted_edit_length: "quoted_edit e K R z loaded r r' \<Longrightarrow> length r' = length r"
  by (induction rule: quoted_edit.induct) simp_all

lemma frag4_offset:
  "(drop_bit 3 w OR (if odd w then 0x2000 else 0)) AND 0x1fff = 0 \<longleftrightarrow> drop_bit 3 w = 0" for w :: u16
proof -
  have "drop_bit 3 w AND 0x1fff = take_bit 13 (drop_bit 3 w)"
    by (simp only: take_bit_eq_mask) (simp add: mask_numeral)
  also have "\<dots> = drop_bit 3 w" by (rule bit_eqI) (auto simp: bit_simps dest: bit_imp_le_length)
  finally have "drop_bit 3 w AND 0x1fff = drop_bit 3 w" .
  then show ?thesis by (simp add: bit.conj_disj_distrib2)
qed

lemma quoted_first: "q_frag4 (quoted_vars e z) AND IP_OFFSET = 0 \<longleftrightarrow> v6_first z"
  using frag4_offset [of "v6_frag_word z"] by (auto simp: quoted_vars_def v6_first_def const_defs)

text \<open>
  Storing a checksum by the difference rule: the 32-bit addition loses its carry, so that the
  stored field is right when there is none and off by one when there is.
\<close>

lemma unat_not_u16: "unat (NOT x :: u16) = 65535 - unat x"
proof -
  let ?n = "unat (NOT x) + unat x"
  have "NOT x + x = - 1" by (simp add: not_eq_complement)
  then have "unat (NOT x + x) = 65535" by (simp add: unsigned_minus_1_eq_mask mask_eq_exp_minus_1)
  then have "?n mod 65536 = 65535" by (simp add: unat_word_ariths)
  moreover have "?n < 65536 * 2 - 1" using unat_u16_less [of x] unat_u16_less [of "NOT x"] by linarith
  ultimately show ?thesis by (cases "?n < 65536") (auto simp: mod_if split: if_splits)
qed

lemma int_mod_carry: "x < 2 * n \<Longrightarrow> int (x mod n) = int x - (if x < n then 0 else 1) * int n"
  by (simp add: le_mod_geq of_nat_diff)

lemma quoted_csum_carry:
  "eqc (uint (quoted_csum diff oc) + uint diff) (uint oc + (if unat diff + unat (NOT oc) < 2 ^ 32 then 0 else 1))"
proof -
  let ?s = "diff + ucast (NOT oc) :: u32" and ?c = "if unat diff + unat (NOT oc) < 2 ^ 32 then 0 else 1 :: int"
  have "unat (ucast (NOT oc) :: u32) = unat (NOT oc)"
    using unat_u16_less [of "NOT oc"] by (simp add: unsigned_ucast_eq take_bit_eq_mod)
  then have "unat ?s = (unat diff + unat (NOT oc)) mod 2 ^ 32" by (simp add: unat_word_ariths)
  moreover have "unat diff + unat (NOT oc) < 2 * 2 ^ 32"
    using unat_u32_less [of diff] unat_u16_less [of "NOT oc"] by simp
  ultimately have "int (unat ?s) = int (unat diff) + int (unat (NOT oc)) - ?c * 2 ^ 32"
    using int_mod_carry [of "unat diff + unat (NOT oc)" "2 ^ 32"] by (simp only: of_nat_add of_nat_power of_nat_numeral)
  moreover have "int (unat (NOT oc)) = 65535 - int (unat oc)"
    using unat_not_u16 [of oc] unat_u16_less [of oc] by simp
  ultimately have s: "uint ?s = uint diff + 65535 - uint oc - ?c * 2 ^ 32" by (simp only: uint_nat)
  have "eqc (uint (quoted_csum diff oc) + uint ?s + (uint oc + ?c)) (0 + (uint oc + ?c))"
    unfolding quoted_csum_def by (intro eqc_add csum_fold_eqc eqc_refl)
  from eqc_add [OF this eqc_65535 [of "?c * 65537 - 1"]] show ?thesis
    unfolding s by (simp add: algebra_simps)
qed

lemma quoted_csum_eqc:
  "unat diff + unat (NOT oc) < 2 ^ 32 \<Longrightarrow> eqc (uint (quoted_csum diff oc) + uint diff) (uint oc)"
  using quoted_csum_carry [of diff oc] by simp

text \<open>
  The frame \<open>f\<close> that an error \<open>p\<close> is turned into. \<open>new\<close> are the rewritten headers, \<open>r\<close>
  the bytes behind them, and \<open>d\<close> and \<open>d'\<close> the differences accumulated before and after the
  edit of the quoted transport header. \<open>s\<close> is the buffer that edit reads from.
\<close>

definition error_result :: "byte_order \<Rightarrow> kernel \<Rightarrow> rodata \<Rightarrow> bytes \<Rightarrow> bool \<Rightarrow> bytes \<Rightarrow> bool" where
  "error_result e K R p partial f \<longleftrightarrow>
     (\<exists>chk qchk c' r s new d d'. let z = quote p; b = v6_body p in
        f = rfc_frame4 e R p (v6_len p - quoted_cut z) chk [] @ overwrite 2 (st16 e c') (new @ r) \<and>
        new = rfc_error4 b z @ rfc_quoted4 e R z qchk \<and>
        valid_header4 e R p (v6_len p - quoted_cut z) chk \<and> length qchk = 2 \<and> inet_ok (rfc_quoted4 e R z qchk) \<and>
        quoted_ok e R z \<and> m_ok (fst (icmp6_to_icmp4 (b ! 0) (b ! 1) (word4 b) 0)) \<and>
        quoted_edit e K R z (fst (bpf_skb_load_bytes K s (62 + quoted_coff z) 2) = 0) (v6_body z) r \<and>
        length (pkt s) = 62 + length (v6_body z) \<and>
        eqc (uint (d :: u32) + int (nsum e (in_pseudo6 p (v6_len p) 58)) + int (nsum e (take (28 + quoted_cut z) b)))
            (int (nsum e new)) \<and>
        eqc (uint (d' :: u32) + int (nsum e (v6_body z))) (uint d + int (nsum e r)) \<and>
        l4_update partial BPF_F_PSEUDO_HDR 0 (ucast d') c' \<and> 62 \<le> length p \<and> \<not> v6_is_frag p)"

lemma error_resultI:
  assumes "f = rfc_frame4 e R p (v6_len p - quoted_cut (quote p)) chk [] @ overwrite 2 (st16 e c') (new @ r)"
    and "new = rfc_error4 (v6_body p) (quote p) @ rfc_quoted4 e R (quote p) qchk"
    and "valid_header4 e R p (v6_len p - quoted_cut (quote p)) chk" and "length qchk = 2"
    and "inet_ok (rfc_quoted4 e R (quote p) qchk)" and "quoted_ok e R (quote p)"
    and "m_ok (fst (icmp6_to_icmp4 (v6_body p ! 0) (v6_body p ! 1) (word4 (v6_body p)) 0))"
    and "quoted_edit e K R (quote p) (fst (bpf_skb_load_bytes K s (62 + quoted_coff (quote p)) 2) = 0) (v6_body (quote p)) r"
    and "length (pkt s) = 62 + length (v6_body (quote p))"
    and "eqc (uint (d :: u32) + int (nsum e (in_pseudo6 p (v6_len p) 58)) +
          int (nsum e (take (28 + quoted_cut (quote p)) (v6_body p)))) (int (nsum e new))"
    and "eqc (uint (d' :: u32) + int (nsum e (v6_body (quote p)))) (uint d + int (nsum e r))"
    and "l4_update partial BPF_F_PSEUDO_HDR 0 (ucast d') c'" and "62 \<le> length p" and "\<not> v6_is_frag p"
  shows "error_result e K R p partial f"
  unfolding error_result_def Let_def using assms by blast

context bpf_kernel
begin

lemma quoted_in4_valid:
  assumes "quoted_ok e R z"
  obtains chk where "iphdr_bytes e (quoted_in4 e K R (quoted_vars e z)) = rfc_quoted4 e R z chk"
    and "length chk = 2" and "inet_ok (rfc_quoted4 e R z chk)"
proof
  show b: "iphdr_bytes e (quoted_in4 e K R (quoted_vars e z)) =
      rfc_quoted4 e R z (st16 e (ip_check (quoted_in4 e K R (quoted_vars e z))))"
    by (rule quoted_in4_bytes [OF assms])
  have ok: "inet_ok (iphdr_bytes e (quoted_in4 e K R (quoted_vars e z)))"
    unfolding quoted_in4_def by (rule h4_csum_ok) simp_all
  show "inet_ok (rfc_quoted4 e R z (st16 e (ip_check (quoted_in4 e K R (quoted_vars e z)))))"
  using ok by (simp only: b)
qed simp

section \<open>Shrinking the packet\<close>

lemma overwrite_header4:
  assumes "62 \<le> length p" and "length chk = 2" and "length h = 20"
  shows "overwrite 14 h (rfc_frame4 e R p n chk [] @ xs) = take 12 p @ [8, 0] @ h @ xs"
  using assms length_rfc_header4 [of p chk e R n] by (simp add: overwrite_def rfc_frame4_def)

lemma ingress_shrink_Next:
  assumes "ingress_shrink e K R (ingress_vars e R p) 34 new n u = Next u'"
    and "pkt (w_skb u) = rfc_frame4 e R p m chk [] @ b" and "length chk = 2" and "protocol (w_skb u) = ETH_P_IP"
    and "62 \<le> length p" and "length new = 28" and "0 < n" and "n \<le> v6_len p"
  obtains chk' where "pkt (w_skb u') = rfc_frame4 e R p (v6_len p - n) chk' [] @ new @ drop (28 + n) b"
    and "valid_header4 e R p (v6_len p - n) chk'" and "28 + n \<le> length b"
    and "is_partial (w_skb u') = is_partial (w_skb u)"
proof -
  let ?v = "ingress_vars e R p" and ?h = "rfc_frame4 e R p m chk []"
  have h: "length ?h = 34" using assms(3,5) by (simp add: length_rfc_frame4)
  have "ingress_tot_len ?v - word_of_nat n = word_of_nat (v6_len p - n + 20)"
    using assms(5,8) by (simp add: ingress_tot_len_def ingress_vars_fields of_nat_diff)
  then have tl: "bpf_htons e (ingress_tot_len ?v - word_of_nat n) = bpf_htons e (word_of_nat (v6_len p - n + 20))"
    by (rule arg_cong)
  define h4 where "h4 = h4_csum e K ((ingress_h4 e K R ?v)\<lparr>ip_tot_len := bpf_htons e (word_of_nat (v6_len p - n + 20))\<rparr>)"
  obtain r1 s1 where c1: "bpf_skb_adjust_room K (w_skb u) (- int n) BPF_ADJ_ROOM_NET ROOM_FLAGS = (r1, s1)" by fastforce
  obtain r2 s2 where c2: "bpf_skb_store_bytes K s1 34 new STORE_FLAGS = (r2, s2)" by fastforce
  obtain r3 s3 where c3: "bpf_skb_store_bytes K s2 14 (iphdr_bytes e h4) STORE_FLAGS = (r3, s3)" by fastforce
  have ok: "\<not> r1 < 0" "\<not> r2 < 0" "\<not> r3 < 0" and u': "w_skb u' = s3"
    using assms(1) c1 c2 c3 unfolding ingress_shrink_def tl h4_def
    by (auto simp: DROP_def Let_def split: if_splits)
  have "net_base (w_skb u) = 34" by (simp add: net_base_def assms(4))
  then have s1: "n \<le> length b" "pkt s1 = ?h @ drop n b" "is_partial s1 = is_partial (w_skb u)"
    using adjust_shrink [of "w_skb u" n ROOM_FLAGS s1, unfolded c1] ok(1) assms(4,7)
    by (simp_all add: room_flags assms(2) h)
  have "28 + 34 \<le> length (pkt s1)" using store_ok [OF c2 ok(2)] assms(6) by simp
  then have s2: "28 + n \<le> length b" using s1 h by simp
  moreover have "pkt s2 = ?h @ new @ drop (28 + n) b" "is_partial s2 = is_partial (w_skb u)"
    using store_ok [OF c2 ok(2)] s1 assms(6) h by (simp_all add: overwrite_def add.commute)
  ultimately have s3: "pkt s3 = take 12 p @ [8, 0] @ iphdr_bytes e h4 @ new @ drop (28 + n) b" "is_partial s3 = is_partial (w_skb u)"
    using store_ok [OF c3 ok(3)] overwrite_header4 [OF assms(5,3), of "iphdr_bytes e h4"] by simp_all
  show thesis
  proof (rule header4_valid [OF assms(5) refl, where R = R and n = "v6_len p - n", folded h4_def])
    fix chk' assume "iphdr_bytes e h4 = rfc_header4 e R p (v6_len p - n) chk'" "valid_header4 e R p (v6_len p - n) chk'"
    then show thesis using that [of chk'] s3 s2 u' by (simp add: rfc_frame4_def)
  qed
qed

section \<open>The transport header of the quoted packet\<close>

lemma csum_diff16_eqc: "eqc (uint (csum_diff16 e K oc nc d) + uint oc) (uint d + uint nc)"
  using csum_diff_wsum [of "st32 e (word16 e oc)" "st32 e (word16 e nc)" d]
  by (simp add: csum_diff16_def)

text \<open>A change of a two-byte field, and of the type byte with its checksum.\<close>

lemma nsum_field:
  assumes "even k" and "k + 2 \<le> length r"
  shows "int (nsum e (overwrite k (st16 e c) r)) + uint (ld16 e (r ! k) (r ! (k + 1))) = int (nsum e r) + uint c"
proof -
  have "window k 2 r = st16 e (ld16 e (r ! k) (r ! (k + 1)))" using window2_st16 [OF assms(2)] by simp
  then have "nsum e (overwrite k (st16 e c) r) + unat (ld16 e (r ! k) (r ! (k + 1))) = nsum e r + unat c"
    using nsum_overwrite [of k "st16 e c" r e] assms by simp
  then show ?thesis unfolding uint_nat of_nat_add [symmetric] by (simp only:)
qed

lemma nsum_type:
  assumes "2 \<le> length r"
  shows "nsum e (overwrite 0 [t] r) + nsum e [r ! 0, r ! 1] = nsum e r + nsum e [t, r ! 1]"
proof -
  obtain a b xs where "r = a # b # xs" using assms by (cases r; cases "tl r") auto
  then show ?thesis by (simp add: overwrite_def)
qed

lemma eqc_chain:
  assumes "eqc (f + x) (d + y)" and "eqc (g + c) (f + c')" and "s + c = q + c'" and "q + x = r + y"
  shows "eqc (g + r) (d + s)"
proof -
  have "eqc (f + x + (g + c) - (f + x + c - r)) (d + y + (f + c') - (f + x + c - r))"
    by (intro eqc_diff eqc_add assms(1,2) eqc_refl)
  moreover have "f + x + (g + c) - (f + x + c - r) = g + r" by simp
  moreover have "d + y + (f + c') - (f + x + c - r) = d + s" using assms(3,4) by linarith
  ultimately show ?thesis by (simp only:)
qed

lemma eqc_field: "eqc (g + c) (d + c') \<Longrightarrow> s + c = r + c' \<Longrightarrow> eqc (g + r) (d + s)"
  using eqc_chain [OF eqc_refl, of g c d c' s r 0 r] by simp

lemma quoted_strip_eqc:
  assumes "54 \<le> length z"
  shows "eqc (uint (quoted_strip e K z t nt c) + int (nsum e (in_pseudo6 z (v6_len z) 58)) + int (nsum e [t, c]))
     (int (nsum e [nt, c]))"
  unfolding quoted_strip_def by (rule eqc_strip [OF strip_diff_eqc [OF assms] type_diff_eqc])

lemma quoted_diff_eqc:
  assumes "54 \<le> length z" and "n < 65536"
  shows "eqc (uint (quoted_diff e K R z) + int (nsum e (in_pseudo6 z n nh))) (int (nsum e (quoted_pseudo4 e R z n nh)))"
proof -
  let ?m = "unat (ld16 e 0 nh) + nsum e (net16 (word_of_nat n))"
  have "eqc (uint (quoted_diff e K R z) + int (nsum e (window 22 32 z)))
      (int (nsum e (rfc_dst4 e R @ window 50 4 z)))"
    using csum_diff_wsum [of "window 22 32 z" "rfc_dst4 e R @ window 50 4 z" 0] assms
    by (simp add: quoted_diff_def)
  then have "eqc (uint (quoted_diff e K R z) + int (nsum e (window 22 32 z)) + int ?m)
      (int (nsum e (rfc_dst4 e R @ window 50 4 z)) + int ?m)"
    by (intro eqc_add) simp_all
  with assms show ?thesis
    by (simp add: nsum_in_pseudo6 quoted_pseudo4_def nsum_append algebra_simps)
qed

lemma load2:
  assumes "bpf_skb_load_bytes K s (length pre + k) 2 = (rc, b)" and "\<not> rc < 0" and "pkt s = pre @ r"
  shows "k + 2 \<le> length r \<and> b ! 0 = r ! k \<and> b ! 1 = r ! (k + 1)"
  using load_ok [OF assms(1,2)] by (simp add: assms(3) nth_window nth_append)

lemma quoted_echo_sum:
  assumes "4 \<le> length r" and "r' = overwrite 2 (st16 e nc) (overwrite 0 [nt] r)"
    and "d' = csum_diff16 e K (ld16 e (r ! 2) (r ! 3)) nc
      (word_of_int (bpf_csum_diff K (st32 e (type_word e (r ! 0) (r ! 1))) (st32 e (type_word e nt (r ! 1))) d))"
  shows "eqc (uint d' + int (nsum e r)) (uint d + int (nsum e r'))"
proof (rule eqc_chain [OF type_diff_eqc])
  let ?r1 = "overwrite 0 [nt] r"
  have l: "2 \<le> length r" using assms(1) by simp
  have "?r1 ! 2 = r ! 2" "?r1 ! (2 + 1) = r ! 3"
    using assms(1) nth_overwrite_other [of 2 0 "[nt]" r] nth_overwrite_other [of 3 0 "[nt]" r] by simp_all
  with nsum_field [of 2 ?r1 nc] assms(1)
  show "int (nsum e r') + uint (ld16 e (r ! 2) (r ! 3)) = int (nsum e ?r1) + uint nc" by (simp add: assms(2))
  show "int (nsum e ?r1) + int (nsum e [r ! 0, r ! 1]) = int (nsum e r) + int (nsum e [nt, r ! 1])"
    using nsum_type [OF l, of nt] unfolding of_nat_add [symmetric] by (simp only:)
qed (unfold assms(3), rule csum_diff16_eqc)

lemma quoted_echo_strip:
  assumes "54 \<le> length z" and "\<not> v6_is_frag z"
  shows "pseudo6_bytes e (pseudo6_of e (ip6_saddr (hdr6 e z)) (ip6_daddr (hdr6 e z))
    (unat (bpf_ntohs e (ip6_payload_len (hdr6 e z))))) = in_pseudo6 z (v6_len z) 58"
  using assms by (simp add: hdr6_fields pseudo6_of_bytes v6_len_def)

text \<open>The quoted echo message: its type and its checksum change, and \<open>d\<close> follows them.\<close>

lemma ingress_quoted_echo_Next:
  assumes "ingress_quoted_echo e K (quoted_vars e z) (length pre) d u = Next (d', u')"
    and "pkt (w_skb u) = pre @ r" and "54 \<le> length z" and "\<not> v6_is_frag z"
  obtains (keep) "r ! 0 \<notin> {128, 129}" and "d' = d" and "u' = u"
    | (edit) nt nc r' where "(r ! 0, nt) \<in> {(128, 8), (129, 0)}" and "4 \<le> length r"
      and "nc = quoted_csum (quoted_strip e K z (r ! 0) nt (r ! 1)) (ld16 e (r ! 2) (r ! 3))"
      and "r' = overwrite 2 (st16 e nc) (overwrite 0 [nt] r)" and "pkt (w_skb u') = pre @ r'"
      and "eqc (uint d' + int (nsum e r)) (uint d + int (nsum e r'))"
      and "is_partial (w_skb u') = is_partial (w_skb u)"
proof -
  obtain rc it where ld: "bpf_skb_load_bytes K (w_skb u) (length pre) 2 = (rc, it)" by fastforce
  have rc: "\<not> rc < 0" using assms(1) by (auto simp: ingress_quoted_echo_def ld DROP_def)
  have it: "2 \<le> length r" "it ! 0 = r ! 0" "it ! 1 = r ! 1" using load2 [of _ pre 0, OF _ rc assms(2)] ld by simp_all
  show thesis
  proof (cases "r ! 0 \<in> {128, 129}")
    case False
    with assms(1) rc keep show ?thesis by (auto simp: ingress_quoted_echo_def ld it)
  next
    case True
    define nt where "nt = (if r ! 0 = 128 then 8 else 0 :: u8)"
    define nc where "nc = quoted_csum (quoted_strip e K z (r ! 0) nt (r ! 1)) (ld16 e (r ! 2) (r ! 3))"
    obtain rc2 ob where ld2: "bpf_skb_load_bytes K (w_skb u) (length pre + 2) 2 = (rc2, ob)" by fastforce
    obtain rc3 s3 where st3: "bpf_skb_store_bytes K (w_skb u) (length pre) [nt] STORE_FLAGS = (rc3, s3)" by fastforce
    obtain rc4 s4 where st4: "bpf_skb_store_bytes K s3 (length pre + 2) (st16 e nc) STORE_FLAGS = (rc4, s4)" by fastforce
    have nt: "(if r ! 0 = ICMPV6_ECHO_REQUEST then ICMP_ECHO else ICMP_ECHOREPLY) = nt"
      by (simp add: nt_def const_defs)
    have "\<not> rc2 < 0"
      using assms(1) rc True unfolding ingress_quoted_echo_def ld ld2 Let_def case_prod_conv it
      by (auto simp: DROP_def)
    with load2 [OF ld2 _ assms(2)] have ob: "4 \<le> length r" "ob ! 0 = r ! 2" "ob ! 1 = r ! 3" by simp_all
    have q: "q_in6 (quoted_vars e z) = hdr6 e z" by (simp add: quoted_vars_def)
    have run: "\<not> rc3 < 0" "\<not> rc4 < 0" "u' = u\<lparr>w_skb := s4\<rparr>" "d' = csum_diff16 e K (ld16 e (r ! 2) (r ! 3)) nc
      (word_of_int (bpf_csum_diff K (st32 e (type_word e (r ! 0) (r ! 1))) (st32 e (type_word e nt (r ! 1))) d))"
      using assms(1) rc \<open>\<not> rc2 < 0\<close> True st3 st4
      unfolding ingress_quoted_echo_def ld ld2 q quoted_echo_strip [OF assms(3,4)] Let_def case_prod_conv it ob nt
        nc_def quoted_strip_def strip_diff_def
      by (auto simp: DROP_def split: if_splits)
    have s3: "pkt s3 = pre @ overwrite 0 [nt] r" "is_partial s3 = is_partial (w_skb u)"
      using store_ok [OF st3 run(1)] overwrite_append_right [of 0 "[nt]" r pre] ob(1) by (simp_all add: assms(2))
    have s4: "pkt s4 = pre @ overwrite 2 (st16 e nc) (overwrite 0 [nt] r)" "is_partial s4 = is_partial (w_skb u)"
      using store_ok [OF st4 run(2)] s3 overwrite_append_right [of 2 "st16 e nc" "overwrite 0 [nt] r" pre] ob(1) by simp_all
    show ?thesis
      by (rule edit [OF _ ob(1) nc_def refl _ quoted_echo_sum [OF ob(1) refl run(4)]])
        (use s4 run(3) True in \<open>auto simp: nt_def\<close>)
  qed
qed

lemma quoted_id6:
  assumes "54 \<le> length z"
  shows "word_of_int (bpf_csum_diff K
      (in6_bytes e (prefix_copy (ip6_saddr (q_in6 (quoted_vars e z)))) @
       in6_bytes e (prefix_copy (ip6_daddr (q_in6 (quoted_vars e z)))))
      (st32 e (ip_saddr (quoted_in4 e K R (quoted_vars e z))) @ st32 e (ip_daddr (quoted_in4 e K R (quoted_vars e z)))) 0) =
    quoted_diff e K R z"
proof -
  have "u6_addr32_3 (in6_of e (window 38 16 z)) = ld32 e (z ! 50) (z ! 51) (z ! 52) (z ! 53)"
    using assms by (simp add: in6_of_def nth_window)
  with assms show ?thesis
    by (simp add: quoted_in4_def h4_csum_def Let_def quoted_vars_def quoted_diff_def hdr6_fields in6_bytes_in6_of
        window_32 rfc_dst4_def window_list4)
qed

lemma ingress_quoted_l4_alt:
  assumes "54 \<le> length z"
  shows "ingress_quoted_l4 e K R (quoted_vars e z) l4 d u =
    (if v6_nh z = 58 \<and> \<not> v6_is_frag z then ingress_quoted_echo e K (quoted_vars e z) l4 d u
     else if quoted_coff z \<noteq> 0 \<and> v6_first z then
       let (rc, ob) = bpf_skb_load_bytes K (w_skb u) (l4 + quoted_coff z) 2;
           oc = ld16 e (ob ! 0) (ob ! 1)
       in if rc = 0 \<and> oc \<noteq> 0 then
            let nc = quoted_csum (quoted_diff e K R z) oc;
                (rc, s) = bpf_skb_store_bytes K (w_skb u) (l4 + quoted_coff z) (st16 e nc) STORE_FLAGS;
                u = u\<lparr>w_skb := s\<rparr>
            in if rc < 0 then DROP K CNT_INGRESS_DROP_HELPER u else Next (csum_diff16 e K oc nc d, u)
          else Next (d, u)
     else Next (d, u))"
proof -
  have b: "bind_step m Next = m" for m :: "(u32 \<times> world) step" by (cases m) auto
  have q: "q_nh (quoted_vars e z) = v6_nh z" "q_frag (quoted_vars e z) = v6_is_frag z"
    by (simp_all add: quoted_vars_def)
  have k: "(if v6_nh z = IPPROTO_UDP then 6 else if v6_nh z = IPPROTO_TCP then 16 else 0) = quoted_coff z"
    by (simp add: quoted_coff_def const_defs)
  show ?thesis
  proof (cases "v6_nh z = 58 \<and> \<not> v6_is_frag z")
    case True
    then have "quoted_coff z = 0" by (simp add: quoted_coff_def)
    with True show ?thesis unfolding ingress_quoted_l4_def q k Let_def by (simp add: b const_defs)
  next
    case False
    then show ?thesis
      unfolding ingress_quoted_l4_def q k quoted_first Let_def quoted_id6 [OF assms]
      by (auto simp: const_defs)
  qed
qed

lemma ingress_quoted_l4_Next:
  assumes "ingress_quoted_l4 e K R (quoted_vars e z) (length pre) d u = Next (d', u')"
    and "pkt (w_skb u) = pre @ r" and "54 \<le> length z"
  obtains r' s loaded where "pkt (w_skb u') = pre @ r'" and "quoted_edit e K R z loaded r r'"
    and "loaded = (fst (bpf_skb_load_bytes K s (length pre + quoted_coff z) 2) = 0)" and "pkt s = pre @ r"
    and "eqc (uint d' + int (nsum e r)) (uint d + int (nsum e r'))"
    and "is_partial (w_skb u') = is_partial (w_skb u)"
proof (cases "v6_nh z = 58 \<and> \<not> v6_is_frag z")
  case True
  then have nf: "\<not> v6_is_frag z" and k: "quoted_coff z = 0" by (simp_all add: quoted_coff_def)
  have "ingress_quoted_echo e K (quoted_vars e z) (length pre) d u = Next (d', u')"
    using assms(1) True by (simp add: ingress_quoted_l4_alt [OF assms(3)])
  from this assms(2,3) nf show thesis
  proof (cases rule: ingress_quoted_echo_Next)
    case keep
    with that [of r _ "w_skb u"] assms(2) k show ?thesis by (simp add: quoted_edit.keep)
  next
    case (edit nt nc r')
    have "quoted_edit e K R z (fst (bpf_skb_load_bytes K (w_skb u) (length pre + quoted_coff z) 2) = 0) r r'"
      unfolding edit(4) by (rule quoted_edit.echo) (use edit(1-3) True in simp_all)
    from that [OF edit(5) this refl assms(2) edit(6,7)] show ?thesis .
  qed
next
  case False
  let ?k = "quoted_coff z"
  obtain rc ob where ld: "bpf_skb_load_bytes K (w_skb u) (length pre + ?k) 2 = (rc, ob)" by fastforce
  let ?c = "ld16 e (r ! ?k) (r ! (?k + 1))"
  show thesis
  proof (cases "?k \<noteq> 0 \<and> v6_first z \<and> rc = 0 \<and> ?c \<noteq> 0")
    case False': False
    have "rc = 0 \<Longrightarrow> ob ! 0 = r ! ?k \<and> ob ! 1 = r ! (?k + 1)" using load2 [OF ld _ assms(2)] by simp
    with False' have "\<not> (?k \<noteq> 0 \<and> v6_first z \<and> rc = 0 \<and> ld16 e (ob ! 0) (ob ! 1) \<noteq> 0)" by auto
    with assms(1) False have "d' = d" "u' = u"
      unfolding ingress_quoted_l4_alt [OF assms(3)] ld Let_def case_prod_conv by (auto split: if_splits)
    moreover have E: "quoted_edit e K R z (fst (bpf_skb_load_bytes K (w_skb u) (length pre + ?k) 2) = 0) r r"
      by (rule quoted_edit.keep) (use False False' ld in auto)
    ultimately show ?thesis by (intro that [OF _ E refl assms(2)]) (simp_all add: assms(2))
  next
    case True
    with load2 [OF ld _ assms(2)] have ob: "?k + 2 \<le> length r" "ob ! 0 = r ! ?k" "ob ! 1 = r ! (?k + 1)" by simp_all
    let ?nc = "quoted_csum (quoted_diff e K R z) ?c"
    obtain rc2 s where st: "bpf_skb_store_bytes K (w_skb u) (length pre + ?k) (st16 e ?nc) STORE_FLAGS = (rc2, s)" by fastforce
    have run: "\<not> rc2 < 0" "u' = u\<lparr>w_skb := s\<rparr>" "d' = csum_diff16 e K ?c ?nc d"
      using assms(1) False True st unfolding ingress_quoted_l4_alt [OF assms(3)] ld Let_def case_prod_conv ob
      by (auto simp: DROP_def split: if_splits)
    have s: "pkt s = pre @ overwrite ?k (st16 e ?nc) r" "is_partial s = is_partial (w_skb u)"
      using store_ok [OF st run(1)] overwrite_append_right [of ?k "st16 e ?nc" r pre] ob(1) by (simp_all add: assms(2))
    have "even ?k" by (simp add: quoted_coff_def)
    from eqc_field [OF csum_diff16_eqc nsum_field [OF this ob(1), of ?nc], of d]
    have d': "eqc (uint d' + int (nsum e r)) (uint d + int (nsum e (overwrite ?k (st16 e ?nc) r)))"
      by (simp only: run(3))
    have E: "quoted_edit e K R z (fst (bpf_skb_load_bytes K (w_skb u) (length pre + ?k) 2) = 0) r
        (overwrite ?k (st16 e ?nc) r)"
      by (rule quoted_edit.field) (use ob(1) True in auto)
    show ?thesis by (rule that [OF _ E refl assms(2) d']) (simp_all add: s run(2))
  qed
qed

section \<open>The translated error\<close>

lemma error_old:
  assumes "\<not> v6_is_frag p" and "quoted_ok e R (quote p)"
  shows "take 8 (v6_body p) @ q_old (quoted_vars e (quote p)) = take (28 + quoted_cut (quote p)) (v6_body p)"
    and "28 + quoted_cut (quote p) \<le> length (v6_body p)"
proof -
  let ?n = "40 + (if v6_is_frag (quote p) then 8 else 0) :: nat"
  have n: "28 + quoted_cut (quote p) = 8 + ?n" by (simp add: quoted_cut_def)
  have "q_old (quoted_vars e (quote p)) = window 8 ?n (v6_body p)"
    using window_quote [OF assms(1), of 8 ?n] by (simp add: quoted_vars_def)
  then show "take 8 (v6_body p) @ q_old (quoted_vars e (quote p)) = take (28 + quoted_cut (quote p)) (v6_body p)"
    unfolding n using take_add [of 8 ?n "v6_body p"] by (simp add: window_def del: take_append)
  have "length (quote p) = length p - 48" "length (v6_body p) = length p - 54"
    using assms(1) by (simp_all add: quote_def v6_body_nofrag)
  with assms(2) show "28 + quoted_cut (quote p) \<le> length (v6_body p)"
    by (auto simp: quoted_ok_def quoted_cut_def split: if_splits)
qed

lemma error_diff_eqc:
  assumes "\<not> v6_is_frag p" and "quoted_ok e R (quote p)" and "62 \<le> length p" and "length new = 28"
    and d: "(d :: u32) = word_of_int (bpf_csum_diff K (take 8 (v6_body p) @ q_old (quoted_vars e (quote p))) new (strip_diff K p))"
  shows "eqc (uint d + int (nsum e (in_pseudo6 p (v6_len p) 58)) +
      int (nsum e (take (28 + quoted_cut (quote p)) (v6_body p)))) (int (nsum e new))"
proof (rule eqc_strip)
  show "eqc (uint (strip_diff K p) + int (nsum e (in_pseudo6 p (v6_len p) 58))) 0"
    by (rule strip_diff_eqc) (use assms(3) in simp)
  show "eqc (uint d + int (nsum e (take (28 + quoted_cut (quote p)) (v6_body p)))) (uint (strip_diff K p) + int (nsum e new))"
    unfolding d error_old(1) [OF assms(1,2)]
    by (rule csum_diff_wsum) (use error_old(2) [OF assms(1,2)] assms(4) in \<open>simp_all add: quoted_cut_def\<close>)
qed

lemma ingress_error_stages:
  assumes "ingress_error e K R v 34 hdr d u = Return TC_ACT_OK w'"
  obtains m ptr q w1 w2 d2 where "icmp6_to_icmp4 (hdr ! 0) (hdr ! 1) (hdr_word e hdr) 0 = (m, ptr)" and "m_ok m"
    and "ingress_quoted e K R 34 u = Next q"
    and "ingress_shrink e K R v 34 (error_new e K R hdr m ptr q) (error_cut q) u = Next w1"
    and "ingress_quoted_l4 e K R q 62 (word_of_int (bpf_csum_diff K (hdr @ q_old q) (error_new e K R hdr m ptr q) d)) w1 = Next (d2, w2)"
    and "ingress_csum_replace K 36 d2 BPF_F_PSEUDO_HDR w2 = Return TC_ACT_OK w'"
proof -
  have 1: "ingress_quoted e K R l w \<noteq> Return TC_ACT_OK w'" for l w
    by (auto simp: ingress_quoted_def DROP_def bind_step_Return Let_def split: if_splits prod.splits)
  have 2: "ingress_shrink e K R v l new n w \<noteq> Return TC_ACT_OK w'" for l new n w
    by (auto simp: ingress_shrink_def DROP_def Let_def split: if_splits prod.splits)
  have 3: "ingress_quoted_echo e K q l d w \<noteq> Return TC_ACT_OK w'" for q l d w
    by (auto simp: ingress_quoted_echo_def DROP_def Let_def split: if_splits prod.splits)
  have 4: "ingress_quoted_l4 e K R q l d w \<noteq> Return TC_ACT_OK w'" for q l d w
    by (auto simp: ingress_quoted_l4_def 3 DROP_def bind_step_Return Let_def split: if_splits prod.splits)
  obtain m ptr where m: "icmp6_to_icmp4 (hdr ! 0) (hdr ! 1) (hdr_word e hdr) 0 = (m, ptr)" by fastforce
  show thesis
    using assms that [OF m] unfolding ingress_error_def m
    by (auto simp: bind_step_Return 1 2 4 DROP_def Let_def split: if_splits)
qed

lemma error_new_bytes:
  assumes "icmp6_to_icmp4 (b ! 0) (b ! 1) (word4 b) 0 = (m, ptr)" and "8 \<le> length b" and "quoted_ok e R z"
  obtains qchk where "error_new e K R (take 8 b) m ptr (quoted_vars e z) = rfc_error4 b z @ rfc_quoted4 e R z qchk"
    and "length qchk = 2" and "inet_ok (rfc_quoted4 e R z qchk)"
  by (rule quoted_in4_valid [OF assms(3)])
    (use that in \<open>simp add: error_new_def error_icmp4_bytes [OF assms(1,2)]\<close>)

lemma error_checksum_stage:
  assumes "ingress_csum_replace K 36 d BPF_F_PSEUDO_HDR u = Return TC_ACT_OK w'"
    and "pkt (w_skb u) = h @ new @ r" and "length h = 34" and "4 \<le> length new" and "new ! 2 = 0" and "new ! 3 = 0"
  obtains c' where "pkt (w_skb w') = h @ overwrite 2 (st16 e c') (new @ r)"
    and "l4_update (is_partial (w_skb u)) BPF_F_PSEUDO_HDR 0 (ucast d) c'"
proof (rule ingress_csum_replace_OK [of h 2 d BPF_F_PSEUDO_HDR u w' "new @ r"])
  have "(new @ r) ! Suc 2 = new ! 3" "(new @ r) ! 2 = new ! 2" using assms(4) by (simp_all add: nth_append numeral_3_eq_3 numeral_2_eq_2)
  then have "ld16 e ((new @ r) ! 2) ((new @ r) ! Suc 2) = 0" using assms(5,6) by (cases e) simp_all
  then show "\<And>c'. pkt (w_skb w') = h @ overwrite 2 (st16 e c') (new @ r) \<Longrightarrow>
      l4_update (is_partial (w_skb u)) BPF_F_PSEUDO_HDR (ld16 e ((new @ r) ! 2) ((new @ r) ! Suc 2)) (ucast d) c' \<Longrightarrow> thesis"
    using that by simp
qed (use assms tcp_flags in simp_all)

lemma rfc_error4_field: "length (rfc_error4 b z) = 8" "rfc_error4 b z ! 2 = 0" "rfc_error4 b z ! 3 = 0"
  by (auto simp: rfc_error4_def split: prod.splits)

lemma length_rfc_quoted4: "quoted_ok e R z \<Longrightarrow> length chk = 2 \<Longrightarrow> length (rfc_quoted4 e R z chk) = 20"
  by (simp add: rfc_quoted4_def rfc_frag4_def quoted_ok_def)

lemma error_cut_vars: "error_cut (quoted_vars e z) = quoted_cut z"
  by (simp add: error_cut_def quoted_cut_def quoted_vars_def)

lemma error_result_build:
  assumes m: "icmp6_to_icmp4 (v6_body p ! 0) (v6_body p ! 1) (word4 (v6_body p)) 0 = (m, ptr)" "m_ok m"
    and q: "quoted_ok e R (quote p)"
    and w1: "ingress_shrink e K R (ingress_vars e R p) 34 (error_new e K R (take 8 (v6_body p)) m ptr (quoted_vars e (quote p)))
        (error_cut (quoted_vars e (quote p))) u = Next w1"
    and w2: "ingress_quoted_l4 e K R (quoted_vars e (quote p)) 62
        (word_of_int (bpf_csum_diff K (take 8 (v6_body p) @ q_old (quoted_vars e (quote p)))
          (error_new e K R (take 8 (v6_body p)) m ptr (quoted_vars e (quote p))) (strip_diff K p))) w1 = Next (d2, w2)"
    and run: "ingress_csum_replace K 36 d2 BPF_F_PSEUDO_HDR w2 = Return TC_ACT_OK w'"
    and u: "pkt (w_skb u) = rfc_frame4 e R p (v6_len p) chk0 [] @ v6_body p" "valid_header4 e R p (v6_len p) chk0"
    and p: "62 \<le> length p" and pa: "is_partial (w_skb u) = partial" and pr: "protocol (w_skb u) = ETH_P_IP"
    and b: "8 \<le> length (v6_body p)" and nf: "\<not> v6_is_frag p" and n: "quoted_cut (quote p) \<le> v6_len p"
  shows "error_result e K R p partial (pkt (w_skb w'))"
proof (rule error_new_bytes [OF m(1) b q])
  let ?z = "quote p" and ?n = "v6_len p - quoted_cut (quote p)"
  fix qchk assume new: "error_new e K R (take 8 (v6_body p)) m ptr (quoted_vars e ?z) = rfc_error4 (v6_body p) ?z @ rfc_quoted4 e R ?z qchk"
    and qc: "length qchk = 2" "inet_ok (rfc_quoted4 e R ?z qchk)"
  define hs where "hs = rfc_error4 (v6_body p) ?z @ rfc_quoted4 e R ?z qchk"
  have hs: "length hs = 28" "4 \<le> length hs" "hs ! 2 = 0" "hs ! 3 = 0"
    using qc(1) q by (simp_all add: hs_def rfc_error4_field length_rfc_quoted4 nth_append)
  note w1' = w1 [unfolded new error_cut_vars, folded hs_def] and w2' = w2 [unfolded new, folded hs_def]
  have z: "54 \<le> length ?z" "0 < quoted_cut ?z" using q by (simp_all add: quoted_ok_def quoted_cut_def)
  have "length chk0 = 2" using u(2) by (simp add: valid_header4_def)
  from w1' u(1) this pr p hs(1) z(2) n show ?thesis
  proof (rule ingress_shrink_Next)
    fix chk assume s1: "pkt (w_skb w1) = rfc_frame4 e R p ?n chk [] @ hs @ drop (28 + quoted_cut ?z) (v6_body p)"
      and chk: "valid_header4 e R p ?n chk" and pa1: "is_partial (w_skb w1) = is_partial (w_skb u)"
    let ?h = "rfc_frame4 e R p ?n chk []"
    have h: "length ?h = 34" using chk p by (simp add: valid_header4_def length_rfc_frame4)
    have s1': "pkt (w_skb w1) = (?h @ hs) @ v6_body ?z" using s1 by (simp add: drop_quote [OF nf])
    have l: "length (?h @ hs) = 62" by (simp add: h hs(1))
    show ?thesis
    proof (rule ingress_quoted_l4_Next [OF w2' [folded l] s1' z(1)], unfold l)
      fix r' s loaded assume s2: "pkt (w_skb w2) = (?h @ hs) @ r'" "quoted_edit e K R ?z loaded (v6_body ?z) r'"
        "loaded = (fst (bpf_skb_load_bytes K s (62 + quoted_coff ?z) 2) = 0)" "pkt s = (?h @ hs) @ v6_body ?z"
        and d: "eqc (uint d2 + int (nsum e (v6_body ?z))) (uint (word_of_int (bpf_csum_diff K (take 8 (v6_body p) @
          q_old (quoted_vars e ?z)) hs (strip_diff K p)) :: u32) + int (nsum e r'))"
        and pa2: "is_partial (w_skb w2) = is_partial (w_skb w1)"
      have s2': "pkt (w_skb w2) = ?h @ hs @ r'" by (simp add: s2(1))
      show ?thesis
      proof (rule error_checksum_stage [OF run s2' h hs(2-4)])
        fix c' assume "pkt (w_skb w') = ?h @ overwrite 2 (st16 e c') (hs @ r')"
          and "l4_update (is_partial (w_skb w2)) BPF_F_PSEUDO_HDR 0 (ucast d2) c'"
        from error_resultI [OF this(1) hs_def chk qc q _ s2(2) [unfolded s2(3)] _ error_diff_eqc [OF nf q p hs(1) refl] d _ p nf]
          this(2) m l pa pa1 pa2 s2(4)
        show ?thesis by simp
      qed
    qed
  qed
qed

lemma ingress_error_frame:
  assumes "ingress_translates e K R w w'" and "p = pkt (w_skb w)" and "v6_nh p = 58"
    and "v6_body p ! 0 \<notin> {128, 129}" and "quoted_cut (quote p) \<le> v6_len p"
  shows "error_result e K R p (is_partial (w_skb w)) (pkt (w_skb w'))"
proof (rule ingress_icmp_at [OF assms(1-3)])
  fix u chk0 let ?h = "rfc_frame4 e R p (v6_len p) chk0 []" and ?b = "v6_body p" and ?v = "ingress_vars e R p"
    and ?z = "quote p"
  assume u: "(if ?b ! 0 = 129 \<or> ?b ! 0 = 128 then ingress_echo e K 34 (take 8 ?b) (strip_diff K p) u
      else ingress_error e K R ?v 34 (take 8 ?b) (strip_diff K p) u) = Return TC_ACT_OK w'"
    "pkt (w_skb u) = ?h @ ?b" "valid_header4 e R p (v6_len p) chk0" "length ?h = 34" "62 \<le> length p"
    "is_partial (w_skb u) = is_partial (w_skb w)" "protocol (w_skb u) = ETH_P_IP" "8 \<le> length ?b" "\<not> v6_is_frag p"
  have "ingress_error e K R ?v 34 (take 8 ?b) (strip_diff K p) u = Return TC_ACT_OK w'" using u(1) assms(4) by simp
  then show ?thesis
  proof (rule ingress_error_stages)
    fix m ptr q w1 w2 d2
    assume m: "icmp6_to_icmp4 (take 8 ?b ! 0) (take 8 ?b ! 1) (hdr_word e (take 8 ?b)) 0 = (m, ptr)" "m_ok m"
      and q: "ingress_quoted e K R 34 u = Next q"
      and w1: "ingress_shrink e K R ?v 34 (error_new e K R (take 8 ?b) m ptr q) (error_cut q) u = Next w1"
      and w2: "ingress_quoted_l4 e K R q 62 (word_of_int (bpf_csum_diff K (take 8 ?b @ q_old q)
        (error_new e K R (take 8 ?b) m ptr q) (strip_diff K p))) w1 = Next (d2, w2)"
      and run: "ingress_csum_replace K 36 d2 BPF_F_PSEUDO_HDR w2 = Return TC_ACT_OK w'"
    have qz: "q = quoted_vars e ?z" "quoted_ok e R ?z" using ingress_quoted_Next [OF q u(2,4,9,5)] by simp_all
    have m': "icmp6_to_icmp4 (?b ! 0) (?b ! 1) (word4 ?b) 0 = (m, ptr)" using m u(8) by (simp add: hdr_word_def word4_def)
    show ?thesis
      by (rule error_result_build [OF m' m(2) qz(2) w1 [unfolded qz(1)] w2 [unfolded qz(1)] run u(2,3,5,6,7,8,9) assms(5)])
  qed
qed

end

end
