(* ===== verification/Ingress_Live.thy ===== *)
theory Ingress_Live
  imports Ingress_Error
begin

text \<open>
  Progress of \<open>clat_ingress\<close>: with a kernel that serves every valid call, a packet that
  passes the checks of the program is translated, ICMPv6 errors included. \<open>ingress_ready\<close>
  spells the checks out on the bytes of the packet.
\<close>

definition error_ready :: "byte_order \<Rightarrow> rodata \<Rightarrow> bytes \<Rightarrow> bool" where
  "error_ready e R p \<longleftrightarrow>
     (let b = v6_body p; z = quote p
      in m_ok (fst (icmp6_to_icmp4 (b ! 0) (b ! 1) (word4 b) 0)) \<and> quoted_ok e R z \<and>
         (v6_nh z = 58 \<and> \<not> v6_is_frag z \<longrightarrow> 4 \<le> length (v6_body z)))"

definition ingress_l4_ready :: "byte_order \<Rightarrow> rodata \<Rightarrow> bytes \<Rightarrow> bool" where
  "ingress_l4_ready e R p \<longleftrightarrow>
     (let b = v6_body p
      in if \<not> v6_first p then True
         else if v6_nh p = 6 then 18 \<le> length b
         else if v6_nh p = 17 then 8 \<le> length b \<and> [b ! 6, b ! 7] \<noteq> [0, 0]
         else if v6_nh p = 58 then 8 \<le> length b \<and> (b ! 0 = 129 \<or> b ! 0 = 128 \<or> error_ready e R p)
         else True)"

definition ingress_ready :: "byte_order \<Rightarrow> rodata \<Rightarrow> world \<Rightarrow> bool" where
  "ingress_ready e R w \<longleftrightarrow>
     skb_wf (w_skb w) \<and> protocol (w_skb w) = ETH_P_IPV6 \<and> 14 \<le> linear (w_skb w) \<and> counters_ok w \<and>
     ingress_accepts e R (pkt (w_skb w)) \<and> ingress_l4_ready e R (pkt (w_skb w))"

lemma overwrite_append_left: "off + length ys \<le> length xs \<Longrightarrow> overwrite off ys (xs @ zs) = overwrite off ys xs @ zs"
  by (simp add: overwrite_def)

context bpf_kernel_live
begin

section \<open>Parsing and reshaping\<close>

lemma ingress_match_error_live:
  assumes "skb_wf (w_skb w)" and "p = pkt (w_skb w)" and "102 \<le> length p"
    and "p ! 54 \<noteq> 0" and "p ! 54 \<le> 4" and "clat_flow e R (ipv6hdr_of e (window 62 40 p))"
  shows "\<exists>w'. ingress_match_error e K R w = Next w'"
proof -
  obtain s where el: "ensure_linear K (w_skb w) 102 = (True, s)"
    using ensure_linear_live [OF assms(1), of 102] assms(2,3) by auto
  note s = ensure_linear_same [OF el assms(1)]
  have "window 54 8 p ! 0 = p ! 54" using assms(3) by (simp add: nth_window)
  with s assms el show ?thesis
    by (auto simp: ingress_match_error_def lin_read_def clat_flow_def Let_def)
qed

lemma ingress_match_live:
  assumes "skb_wf (w_skb w)" and "14 \<le> linear (w_skb w)" and "ingress_matches e R (pkt (w_skb w))"
  shows "\<exists>a w'. ingress_match e K R w = Next (a, w')"
proof -
  let ?p = "pkt (w_skb w)"
  note m = assms(3) [unfolded ingress_matches_def]
  have p: "62 \<le> length ?p" using m by simp
  obtain s where el: "ensure_linear K (w_skb w) 62 = (True, s)"
    using ensure_linear_live [OF assms(1), of 62] p by auto
  note s = ensure_linear_same [OF el assms(1)]
  have et: "window 12 2 ?p ! 0 = ?p ! 12" "window 12 2 ?p ! Suc 0 = ?p ! 13" using p by (simp_all add: nth_window)
  show ?thesis
  proof (cases "in_prefix R (ip6_saddr (hdr6 e ?p))")
    case True
    with assms(2) m s et el show ?thesis by (auto simp: ingress_match_def lin_read_def hdr6_def Let_def)
  next
    case False
    with m s obtain w' where "ingress_match_error e K R (w\<lparr>w_skb := s\<rparr>) = Next w'"
      using ingress_match_error_live [of "w\<lparr>w_skb := s\<rparr>" ?p R] by auto
    with False assms(2) m s et el show ?thesis by (auto simp: ingress_match_def lin_read_def hdr6_def Let_def)
  qed
qed

lemma ingress_parse_live:
  assumes "skb_wf (w_skb w)" and "14 \<le> linear (w_skb w)" and "ingress_accepts e R (pkt (w_skb w))"
  shows "\<exists>w1. ingress_parse e K R w = Next (ingress_vars e R (pkt (w_skb w)), w1)"
proof -
  let ?p = "pkt (w_skb w)" and ?v = "ingress_vars e R (pkt (w_skb w))"
  have acc: "ingress_matches e R ?p" "ig_is_frag ?v \<longrightarrow> 8 \<le> unat (bpf_ntohs e (ip6_payload_len (hdr6 e ?p)))"
    "\<not> is_ext_hdr (ig_nh ?v)" "\<not> (ig_nh ?v = IPPROTO_ICMPV6 \<and> ig_is_frag ?v)"
    using assms(3) by (simp_all add: ingress_accepts_def Let_def)
  obtain a w1 where m: "ingress_match e K R w = Next (a, w1)" using ingress_match_live [OF assms(1,2) acc(1)] by blast
  note w1 = ingress_match_Next [OF m assms(1)]
  have "ingress_fields e K a w1 = Next ?v"
    using w1 acc(2) by (auto simp: ingress_fields_def lin_read_def same_packet_def hdr6_def fhdr6_def ingress_vars_def Let_def)
  moreover have "ingress_checks K ?v w1 = Next ()" using acc(3,4) by (auto simp: ingress_checks_def)
  ultimately show ?thesis by (simp add: ingress_parse_def m)
qed

lemma ingress_reshape_live:
  assumes "protocol (w_skb w) = ETH_P_IPV6" and "62 \<le> length (pkt (w_skb w))"
  shows "\<exists>u. ingress_reshape e K R v w = Next u"
proof -
  obtain r1 s1 where c1: "(if ig_is_frag v then bpf_skb_adjust_room K (w_skb w) (- int FRAG_HLEN) BPF_ADJ_ROOM_NET ROOM_FLAGS
      else (0, w_skb w)) = (r1, s1)" by fastforce
  have "net_base (w_skb w) = 54" using assms(1) by (simp add: net_base_def eth_p_defs)
  then have r1: "\<not> r1 < 0"
    using c1 adjust_shrink_live [of "w_skb w" 8 ROOM_FLAGS] assms by (cases "ig_is_frag v") simp_all
  note s1 = ingress_frag_room [OF c1 r1 assms]
  obtain r2 s2 where c2: "bpf_skb_change_proto K s1 (bpf_htons e ETH_P_IP) 0 = (r2, s2)" by fastforce
  have r2: "\<not> r2 < 0" using change_proto_64_live [of s1] s1 by (simp add: c2)
  have s2: "34 \<le> length (pkt s2)" using change_proto_64 [of s1 s2, unfolded c2] r2 s1 by simp
  obtain r3 s3 where c3: "bpf_skb_store_bytes K s2 14 (iphdr_bytes e (ingress_h4 e K R v)) STORE_FLAGS = (r3, s3)"
    by fastforce
  have r3: "\<not> r3 < 0" using store_live [of 14 "iphdr_bytes e (ingress_h4 e K R v)" s2 STORE_FLAGS] s2 c3 by simp
  have s3: "length (pkt s3) = length (pkt s2)" using store_ok [OF c3 r3] by simp
  obtain r4 s4 where c4: "bpf_skb_store_bytes K s3 12 (st16 e (bpf_htons e ETH_P_IP)) 0 = (r4, s4)" by fastforce
  have r4: "\<not> r4 < 0" using store_live [of 12 "st16 e (bpf_htons e ETH_P_IP)" s3 0] s2 s3 c4 by simp
  show ?thesis
    using r1 r2 r3 r4 c1 by (auto simp: ingress_reshape_def c2 c3 c4 [simplified] Let_def split: if_splits)
qed

section \<open>TCP, UDP and echo\<close>

lemma ingress_csum_replace_live:
  assumes "even off" and "off + 2 \<le> length (pkt (w_skb u))" and "flags AND 0xf = 0"
  shows "\<exists>w'. ingress_csum_replace K off d flags u = Return TC_ACT_OK w'"
  using l4_live [OF assms, of "ucast d"]
  by (auto simp: ingress_csum_replace_def ingress_done_def Let_def split: prod.splits)

lemma load2_live:
  assumes "pkt s = h @ b" and "k + 2 \<le> length b"
  shows "bpf_skb_load_bytes K s (length h + k) 2 = (0, [b ! k, b ! (k + 1)])"
  using load_live_ok [of 2 "length h + k" s] assms window2_st16 [of k b] by (simp add: window_def add.commute)

lemma store_live_ok:
  assumes "off + length bs \<le> length (pkt s)"
  obtains rc s' where "bpf_skb_store_bytes K s off bs flags = (rc, s')" and "\<not> rc < 0"
    and "pkt s' = overwrite off bs (pkt s)"
proof -
  obtain rc s' where c: "bpf_skb_store_bytes K s off bs flags = (rc, s')" by fastforce
  have rc: "\<not> rc < 0" using store_live [OF assms, of flags] by (simp add: c)
  show thesis by (rule that [OF c rc]) (use store_ok [OF c rc] in blast)
qed

lemma ingress_udp_live:
  assumes "pkt (w_skb u) = h @ b" and "length h = 34" and "8 \<le> length b" and "[b ! 6, b ! 7] \<noteq> [0, 0]"
  shows "\<exists>w'. ingress_udp e K 34 d u = Return TC_ACT_OK w'"
proof -
  have "bpf_skb_load_bytes K (w_skb u) 40 2 = (0, [b ! 6, b ! 7])"
    using load2_live [OF assms(1), of 6] assms(2,3) by simp
  moreover have "ld16 e (b ! 6) (b ! 7) \<noteq> 0" using assms(4) ld16_eq_0_iff [of e "b ! 6" "b ! 7"] by auto
  ultimately show ?thesis
    using ingress_csum_replace_live [of 40 u _ d, OF _ _ udp_flags(1)] assms(1-3) by (simp add: ingress_udp_def)
qed

lemma ingress_echo_live:
  assumes "pkt (w_skb u) = h @ b" and "length h = 34" and "8 \<le> length b"
  shows "\<exists>w'. ingress_echo e K 34 hdr d u = Return TC_ACT_OK w'"
proof -
  let ?t = "if hdr ! 0 = ICMPV6_ECHO_REPLY then ICMP_ECHOREPLY else ICMP_ECHO"
  have l: "34 + length [?t] \<le> length (pkt (w_skb u))" using assms by simp
  obtain rc s where s: "bpf_skb_store_bytes K (w_skb u) 34 [?t] STORE_FLAGS = (rc, s)" "\<not> rc < 0"
    "pkt s = overwrite 34 [?t] (pkt (w_skb u))"
    by (rule store_live_ok [OF l])
  have "\<exists>w'. ingress_csum_replace K 36 x BPF_F_PSEUDO_HDR (u\<lparr>w_skb := s\<rparr>) = Return TC_ACT_OK w'" for x
    using s(3) assms tcp_flags(1) by (intro ingress_csum_replace_live) simp_all
  then show ?thesis using s(1,2) unfolding ingress_echo_def Let_def by simp
qed

section \<open>Errors\<close>

lemma ingress_quoted_live:
  assumes "pkt (w_skb u) = h @ v6_body p" and "length h = 34" and "\<not> v6_is_frag p" and "quoted_ok e R (quote p)"
  shows "\<exists>q. ingress_quoted e K R 34 u = Next q"
proof -
  let ?z = "quote p"
  have l: "28 + quoted_cut ?z \<le> length (v6_body p)" by (rule error_old(2) [OF assms(3,4)])
  have z: "54 \<le> length ?z" "clat_flow e R (hdr6 e ?z)" "\<not> is_ext_hdr (v6_nh ?z)"
    using assms(4) by (simp_all add: quoted_ok_def)
  have "window 42 40 (pkt (w_skb u)) = window 14 40 ?z"
    using window_quote [OF assms(3), of 8 40] by (simp add: assms(1,2) window_def)
  then have ld: "bpf_skb_load_bytes K (w_skb u) 42 40 = (0, window 14 40 ?z)"
    using load_live_ok [of 40 42 "w_skb u"] l assms(1,2) by (simp add: quoted_cut_def)
  have nh: "ip6_nexthdr (hdr6 e ?z) = IPPROTO_FRAGMENT \<longleftrightarrow> v6_is_frag ?z"
    using z(1) by (simp add: hdr6_fields v6_is_frag_def const_defs)
  show ?thesis
  proof (cases "v6_is_frag ?z")
    case False
    with z nh ld show ?thesis
      by (simp add: ingress_quoted_def hdr6_def [symmetric] clat_flow_def v6_nh_def hdr6_fields Let_def)
  next
    case True
    have z2: "62 \<le> length ?z" using assms(4) True by (simp add: quoted_ok_def)
    have "window 82 8 (pkt (w_skb u)) = window 54 8 ?z"
      using window_quote [OF assms(3), of 48 8] by (simp add: assms(1,2) window_def)
    then have "bpf_skb_load_bytes K (w_skb u) 82 8 = (0, window 54 8 ?z)"
      using load_live_ok [of 8 82 "w_skb u"] l assms(1,2) True by (simp add: quoted_cut_def)
    with True z z2 nh ld show ?thesis
      by (simp add: ingress_quoted_def hdr6_def [symmetric] fhdr6_def [symmetric] clat_flow_def v6_nh_def
          fhdr6_fields Let_def)
  qed
qed

lemma ingress_shrink_live:
  assumes "pkt (w_skb u) = h @ b" and "length h = 34" and "protocol (w_skb u) = ETH_P_IP"
    and "length new = 28" and "0 < n" and "n < 4096" and "28 + n \<le> length b"
  obtains u' h' where "ingress_shrink e K R v 34 new n u = Next u'"
    and "pkt (w_skb u') = h' @ new @ drop (28 + n) b" and "length h' = 34"
proof -
  let ?h4 = "h4_csum e K ((ingress_h4 e K R v)\<lparr>ip_tot_len := bpf_htons e (ingress_tot_len v - word_of_nat n)\<rparr>)"
  obtain r1 s1 where c1: "bpf_skb_adjust_room K (w_skb u) (- int n) BPF_ADJ_ROOM_NET ROOM_FLAGS = (r1, s1)" by fastforce
  have nb: "net_base (w_skb u) = 34" by (simp add: net_base_def assms(3))
  have r1: "\<not> r1 < 0" using adjust_shrink_live [of "w_skb u" n ROOM_FLAGS] nb assms by (simp add: c1)
  have s1: "pkt s1 = h @ drop n b"
    using adjust_shrink [of "w_skb u" n ROOM_FLAGS s1, unfolded c1] r1 nb assms(1-3,5) by (simp add: room_flags)
  have "34 + length new \<le> length (pkt s1)" using s1 assms by simp
  then obtain r2 s2 where c2: "bpf_skb_store_bytes K s1 34 new STORE_FLAGS = (r2, s2)" "\<not> r2 < 0"
    "pkt s2 = overwrite 34 new (pkt s1)" by (rule store_live_ok)
  have "14 + length (iphdr_bytes e ?h4) \<le> length (pkt s2)" using c2(3) s1 assms by simp
  then obtain r3 s3 where "bpf_skb_store_bytes K s2 14 (iphdr_bytes e ?h4) STORE_FLAGS = (r3, s3)" "\<not> r3 < 0"
    "pkt s3 = overwrite 14 (iphdr_bytes e ?h4) (pkt s2)" by (rule store_live_ok)
  moreover have "pkt s2 = h @ new @ drop (28 + n) b"
    using c2(3) s1 assms(2,4) by (simp add: overwrite_def add.commute)
  ultimately show thesis
    using c1 r1 c2(1,2) assms(2) that [of "u\<lparr>w_skb := s3\<rparr>" "overwrite 14 (iphdr_bytes e ?h4) h"]
    by (simp add: ingress_shrink_def Let_def overwrite_append_left)
qed

lemma ingress_quoted_echo_live:
  assumes "pkt (w_skb u) = h @ r" and "4 \<le> length r"
  shows "\<exists>d' u'. ingress_quoted_echo e K q (length h) d u = Next (d', u')"
proof -
  let ?it = "[r ! 0, r ! 1]" and ?ob = "[r ! 2, r ! 3]"
  have ld: "bpf_skb_load_bytes K (w_skb u) (length h) 2 = (0, ?it)"
    using load2_live [OF assms(1), of 0] assms(2) by simp
  have ld2: "bpf_skb_load_bytes K (w_skb u) (length h + 2) 2 = (0, ?ob)"
    using load2_live [OF assms(1), of 2] assms(2) by simp
  have st: "0 \<le> fst (bpf_skb_store_bytes K (w_skb u) (length h) [t] STORE_FLAGS)" for t
    using store_live [of "length h" "[t]" "w_skb u" STORE_FLAGS] assms by simp
  have st2: "\<not> fst (bpf_skb_store_bytes K (snd (bpf_skb_store_bytes K (w_skb u) (length h) [t] STORE_FLAGS))
      (length h + 2) (st16 e c) STORE_FLAGS) < 0" for t c
    using store_live [of "length h + 2" "st16 e c" "snd (bpf_skb_store_bytes K (w_skb u) (length h) [t] STORE_FLAGS)" STORE_FLAGS]
      store_bytes [OF st [of t]] assms by simp
  show ?thesis
    unfolding ingress_quoted_echo_def ld ld2 Let_def case_prod_beta fst_conv snd_conv
    by (auto simp: st [unfolded not_less [symmetric]] st2 [simplified])
qed

lemma ingress_quoted_l4_live:
  assumes "pkt (w_skb u) = h @ r" and "54 \<le> length z" and "v6_nh z = 58 \<and> \<not> v6_is_frag z \<longrightarrow> 4 \<le> length r"
  shows "\<exists>d' u'. ingress_quoted_l4 e K R (quoted_vars e z) (length h) d u = Next (d', u')"
proof -
  let ?k = "quoted_coff z"
  obtain rc ob where ld: "bpf_skb_load_bytes K (w_skb u) (length h + ?k) 2 = (rc, ob)" by fastforce
  have st: "\<not> fst (bpf_skb_store_bytes K (w_skb u) (length h + ?k) (st16 e c) STORE_FLAGS) < 0" if "rc = 0" for c
    using store_live [of "length h + ?k" "st16 e c" "w_skb u" STORE_FLAGS] load2 [OF ld _ assms(1)] that assms(1) by simp
  show ?thesis
    using ingress_quoted_echo_live [OF assms(1)] assms(3) st
    unfolding ingress_quoted_l4_alt [OF assms(2)] ld Let_def case_prod_beta fst_conv snd_conv by auto
qed

lemma ingress_error_live:
  assumes u: "pkt (w_skb u) = h @ v6_body p" and h: "length h = 34" "protocol (w_skb u) = ETH_P_IP"
    and nf: "\<not> v6_is_frag p" and p: "62 \<le> length p" "8 \<le> length (v6_body p)" and rdy: "error_ready e R p"
  shows "\<exists>w'. ingress_error e K R v 34 (take 8 (v6_body p)) d u = Return TC_ACT_OK w'"
proof -
  let ?b = "v6_body p" and ?z = "quote p"
  obtain m ptr where m: "icmp6_to_icmp4 (?b ! 0) (?b ! 1) (word4 ?b) 0 = (m, ptr)" by fastforce
  have q: "quoted_ok e R ?z" and ok: "m_ok m" and e4: "v6_nh ?z = 58 \<and> \<not> v6_is_frag ?z \<longrightarrow> 4 \<le> length (v6_body ?z)"
    using rdy m by (simp_all add: error_ready_def Let_def)
  have l: "28 + quoted_cut ?z \<le> length ?b" by (rule error_old(2) [OF nf q])
  obtain q' where "ingress_quoted e K R 34 u = Next q'" using ingress_quoted_live [OF u h(1) nf q] by blast
  with ingress_quoted_Next [OF this u h(1) nf p(1)]
  have s1: "ingress_quoted e K R 34 u = Next (quoted_vars e ?z)" by simp
  let ?new = "error_new e K R (take 8 ?b) m ptr (quoted_vars e ?z)"
  have new: "length ?new = 28" by (simp add: error_new_def)
  have c: "0 < quoted_cut ?z" "quoted_cut ?z < 4096" by (simp_all add: quoted_cut_def)
  obtain w1 h' where s2: "ingress_shrink e K R v 34 ?new (quoted_cut ?z) u = Next w1"
    and "pkt (w_skb w1) = h' @ ?new @ drop (28 + quoted_cut ?z) ?b" and w1': "length h' = 34"
    by (rule ingress_shrink_live [OF u h new c l])
  then have w1: "pkt (w_skb w1) = (h' @ ?new) @ v6_body ?z" "length h' = 34" by (simp_all add: drop_quote [OF nf])
  have h': "length (h' @ ?new) = 62" using w1(2) new by simp
  have z: "54 \<le> length ?z" using q by (simp add: quoted_ok_def)
  let ?d = "word_of_int (bpf_csum_diff K (take 8 ?b @ q_old (quoted_vars e ?z)) ?new d) :: u32"
  obtain d2 w2 where s3: "ingress_quoted_l4 e K R (quoted_vars e ?z) 62 ?d w1 = Next (d2, w2)"
    using ingress_quoted_l4_live [OF w1(1) z e4, of R ?d] unfolding h' by blast
  have "length (pkt (w_skb w2)) = length (pkt (w_skb w1))"
    by (rule ingress_quoted_l4_Next [OF s3 [folded h'] w1(1) z]) (simp add: w1(1) quoted_edit_length)
  then obtain w' where "ingress_csum_replace K 36 d2 BPF_F_PSEUDO_HDR w2 = Return TC_ACT_OK w'"
    using ingress_csum_replace_live [of 36 w2 BPF_F_PSEUDO_HDR d2] tcp_flags(1) w1 new by auto
  moreover have "icmp6_to_icmp4 (take 8 ?b ! 0) (take 8 ?b ! 1) (hdr_word e (take 8 ?b)) 0 = (m, ptr)"
    using m p(2) by (simp add: hdr_word_def word4_def)
  ultimately show ?thesis
    using ok s1 s2 s3 by (simp add: ingress_error_def error_cut_vars Let_def)
qed

section \<open>The program\<close>

lemma ingress_icmp_live:
  assumes u: "pkt (w_skb u) = h @ v6_body p" and h: "length h = 34" "protocol (w_skb u) = ETH_P_IP"
    and nf: "\<not> v6_is_frag p" and p: "62 \<le> length p" "8 \<le> length (v6_body p)"
    and rdy: "v6_body p ! 0 = 129 \<or> v6_body p ! 0 = 128 \<or> error_ready e R p"
  shows "\<exists>w'. ingress_icmp e K R v 34 u = Return TC_ACT_OK w'"
proof -
  have ld: "bpf_skb_load_bytes K (w_skb u) 34 8 = (0, take 8 (v6_body p))"
    using load_live_ok [of 8 34 "w_skb u"] u h(1) p(2) by (simp add: window_def)
  have t: "take 8 (v6_body p) ! 0 = v6_body p ! 0" using p(2) by simp
  show ?thesis
    using ingress_echo_live [OF u h(1) p(2)] ingress_error_live [OF u h nf p] rdy
    by (auto simp: ingress_icmp_def ld t Let_def)
qed

lemma ingress_l4_live:
  assumes u: "pkt (w_skb u) = h @ v6_body p" and h: "length h = 34" "protocol (w_skb u) = ETH_P_IP"
    and p: "62 \<le> length p" and rdy: "ingress_l4_ready e R p" and acc: "ingress_accepts e R p"
  shows "\<exists>w'. ingress_l4 e K R (ingress_vars e R p) 34 u = Return TC_ACT_OK w'"
proof -
  let ?b = "v6_body p" and ?v = "ingress_vars e R p"
  consider (skip) "\<not> v6_first p \<or> v6_nh p \<notin> {58, 6, 17}" | (tcp) "v6_first p" "v6_nh p = 6"
    | (udp) "v6_first p" "v6_nh p = 17" | (icmp) "v6_first p" "v6_nh p = 58" by auto
  then show ?thesis
  proof cases
    case skip
    then show ?thesis using p by (auto simp: ingress_l4_def ingress_vars_fields ingress_done_def)
  next
    case tcp
    then have "18 \<le> length ?b" using rdy by (simp add: ingress_l4_ready_def Let_def)
    with ingress_csum_replace_live [of 50 u BPF_F_PSEUDO_HDR] h u tcp p show ?thesis
      by (simp add: ingress_l4_def ingress_vars_fields tcp_flags)
  next
    case udp
    then show ?thesis
      using ingress_udp_live [OF u h(1)] rdy p by (simp add: ingress_l4_def ingress_vars_fields ingress_l4_ready_def Let_def)
  next
    case icmp
    have nf: "\<not> v6_is_frag p" using acc icmp(2) p by (simp add: ingress_accepts_def ingress_vars_fields Let_def)
    show ?thesis
      using ingress_icmp_live [OF u h nf p, of R ?v] rdy icmp p
      by (simp add: ingress_l4_def ingress_vars_fields ingress_l4_ready_def Let_def)
  qed
qed

lemma ingress_csum_replace_counters:
  "ingress_csum_replace K off d flags u = Return TC_ACT_OK w' \<Longrightarrow>
   clat_counters w' = clat_counters (count K CNT_INGRESS_TRANSLATED u)"
  by (auto simp: ingress_csum_replace_def ingress_done_def DROP_def Let_def count_def
      split: if_splits prod.splits option.splits)

lemma ingress_error_counters:
  assumes "ingress_error e K R v 34 hdr d u = Return TC_ACT_OK w'"
  shows "clat_counters w' = clat_counters (count K CNT_INGRESS_TRANSLATED u)"
  by (rule ingress_error_stages [OF assms])
    (auto dest!: ingress_csum_replace_counters ingress_quoted_l4_counters ingress_shrink_counters
      simp: count_def split: option.splits)

lemma ingress_l4_counters:
  assumes "ingress_l4 e K R v 34 u = Return TC_ACT_OK w'" and "counters_ok u"
  shows "clat_counters w' = tick CNT_INGRESS_TRANSLATED (clat_counters u)"
proof -
  have "clat_counters w' = clat_counters (count K CNT_INGRESS_TRANSLATED u)"
    using assms(1) ingress_csum_replace_counters ingress_error_counters
    by (auto simp: ingress_l4_def ingress_udp_def ingress_icmp_def ingress_echo_def ingress_done_def DROP_def
        Let_def count_def split: if_splits prod.splits option.splits)
  with assms(2) show ?thesis by (simp add: count_counters tick_def)
qed

lemma ingress_live:
  assumes "ingress_ready e R w"
  shows "\<exists>w'. ingress_translates e K R w w'"
proof -
  let ?p = "pkt (w_skb w)" and ?v = "ingress_vars e R (pkt (w_skb w))"
  have w: "skb_wf (w_skb w)" "protocol (w_skb w) = ETH_P_IPV6" "14 \<le> linear (w_skb w)" "counters_ok w"
      "ingress_accepts e R ?p" "ingress_l4_ready e R ?p"
    using assms by (simp_all add: ingress_ready_def)
  then have p: "62 \<le> length ?p" by (simp add: ingress_accepts_def ingress_matches_def Let_def)
  obtain w1 where s1: "ingress_parse e K R w = Next (?v, w1)" using ingress_parse_live [OF w(1,3,5)] by blast
  have w1: "pkt (w_skb w1) = ?p" "protocol (w_skb w1) = ETH_P_IPV6"
    using ingress_parse_Next [OF s1 w(1)] w(2) by (simp_all add: same_packet_def)
  obtain u where s2: "ingress_reshape e K R ?v w1 = Next u" using ingress_reshape_live [OF w1(2)] p w1(1) by auto
  define h where "h = take 12 ?p @ net16 ETH_P_IP @ iphdr_bytes e (ingress_h4 e K R ?v)"
  have u: "pkt (w_skb u) = h @ v6_body ?p" "protocol (w_skb u) = ETH_P_IP" "length h = 34"
    using ingress_reshape_Next [OF s2 w1(2)] p w1 by (simp_all add: h_def v6_body_def ingress_vars_fields)
  obtain w' where s3: "ingress_l4 e K R ?v 34 u = Return TC_ACT_OK w'"
    using ingress_l4_live [OF u(1,3,2) p w(6,5)] by blast
  have "clat_counters u = clat_counters w"
    using ingress_parse_counters [OF s1] ingress_reshape_counters [OF s2] by simp
  then have "clat_counters w' = tick CNT_INGRESS_TRANSLATED (clat_counters w)"
    using ingress_l4_counters [OF s3] w(4) by simp
  moreover have "clat_ingress e K R w = Return TC_ACT_OK w'" by (simp add: clat_ingress_def s1 s2 s3)
  ultimately show ?thesis using w by (auto simp: ingress_translates_def)
qed

end

end
