(* ===== verification/Ingress_Correct.thy ===== *)
theory Ingress_Correct
  imports Ingress_Live
begin

text \<open>
  The properties of \<open>clat_ingress\<close>: it refines the header translation of RFC 7915, touches
  only CLAT return traffic, leaves header and transport checksums that verify in the IPv4
  packet, translates the packet quoted by an error together with the error, and translates
  every packet that passes its checks when the kernel serves its calls.
\<close>

section \<open>Helper lemmas\<close>

text \<open>What follows the IPv4 header in a translated frame.\<close>

definition v4_body :: "bytes \<Rightarrow> bytes" where
  "v4_body q = drop 34 q"

lemma v4_body_frame:
  "62 \<le> length p \<Longrightarrow> valid_header4 e R p n chk \<Longrightarrow> v4_body (rfc_frame4 e R p n chk [] @ xs) = xs"
  using length_rfc_frame4 [of p chk e R n] by (simp add: v4_body_def valid_header4_def)

lemma m_ok_type: "m_ok (fst (icmp6_to_icmp4 t c ptr q)) \<Longrightarrow> m_type (fst (icmp6_to_icmp4 t c ptr q)) \<noteq> 0"
  by (auto simp: icmp_map_simps split: if_splits)

section \<open>Checksums\<close>

text \<open>
  (C6) A TCP segment or UDP datagram whose checksum verifies against the IPv6
  pseudo-header becomes one whose checksum verifies against the IPv4 pseudo-header; the
  checksum of the datagram is not zero. A first fragment is covered with the bytes \<open>rest\<close> of
  the fragments that follow it and the length \<open>n\<close> of the whole.
\<close>

theorem ingress_checksum:
  assumes K: "bpf_kernel e K" and t: "ingress_translates e K R w w'"
    and p: "p = pkt (w_skb w)" "v6_first p" "(v6_nh p, k) \<in> {(6, 16), (17, 6)}" and np: "\<not> is_partial (w_skb w)"
    and n: "n < 65536" and m: "k + 2 \<le> m" "m \<le> length (v6_body p)"
    and ok: "inet_ok (in_pseudo6 p n (v6_nh p) @ take m (v6_body p) @ rest)"
  shows "inet_ok (in_pseudo4 e R p n (v6_nh p) @ take m (v4_body (pkt (w_skb w'))) @ rest) \<and>
    (v6_nh p = 17 \<longrightarrow> window 6 2 (v4_body (pkt (w_skb w'))) \<noteq> [0, 0])"
proof -
  define flags where "flags = (if v6_nh p = 6 then BPF_F_PSEUDO_HDR else BPF_F_PSEUDO_HDR OR BPF_F_MARK_MANGLED_0)"
  have fl: "v6_nh p = 6 \<and> k = 16 \<and> flags = BPF_F_PSEUDO_HDR \<or>
         v6_nh p = 17 \<and> k = 6 \<and> flags = BPF_F_PSEUDO_HDR OR BPF_F_MARK_MANGLED_0" using p(3) by (auto simp: flags_def)
  show ?thesis
  proof (rule bpf_kernel.ingress_csum_frame [OF K t p(1,2) fl])
    fix c' chk assume q: "pkt (w_skb w') = rfc_frame4 e R p (v6_len p) chk [] @ overwrite k (st16 e c') (v6_body p)"
      and v: "valid_header4 e R p (v6_len p) chk" and l: "k + 2 \<le> length (v6_body p)" "62 \<le> length p"
      and u: "l4_update (is_partial (w_skb w)) flags (ld16 e (v6_body p ! k) (v6_body p ! Suc k))
        (ucast (ingress_diff e K R (ingress_vars e R p))) c'"
      and z: "v6_nh p = 17 \<longrightarrow> ld16 e (v6_body p ! k) (v6_body p ! Suc k) \<noteq> 0"
    have c': "eqc (uint c' + uint (ingress_diff e K R (ingress_vars e R p))) (uint (ld16 e (v6_body p ! k) (v6_body p ! Suc k)))"
      and nz: "v6_nh p = 17 \<longrightarrow> c' \<noteq> 0"
      using u np z fl bpf_kernel.tcp_flags(3) [OF K] bpf_kernel.udp_flags(3) [OF K]
      by (auto simp: l4_update_def uint_ucast_u64 split: if_splits)
    have "inet_ok (in_pseudo4 e R p n (v6_nh p) @ take m (overwrite k (st16 e c') (v6_body p)) @ rest)"
      using p(3) by (intro bpf_kernel.ingress_carry_valid [OF K l(2) n _ _ m c' ok]) auto
    moreover have "window k 2 (overwrite k (st16 e c') (v6_body p)) = st16 e c'"
      using l(1) window_overwrite_same [of k "st16 e c'" "v6_body p"] by simp
    ultimately show ?thesis
      using p(3) nz st16_zero [of e c'] by (auto simp: q v4_body_frame [OF l(2) v])
  qed
qed

text \<open>
  (C19) When the checksum has been left to the device, so that the field holds
  the sum of the IPv6 pseudo-header, the field holds the sum of the IPv4 pseudo-header
  afterwards, for TCP and for UDP.
\<close>

theorem ingress_partial:
  assumes K: "bpf_kernel e K" and t: "ingress_translates e K R w w'"
    and p: "p = pkt (w_skb w)" "v6_first p" "(v6_nh p, k) \<in> {(6, 16), (17, 6)}" and pa: "is_partial (w_skb w)"
    and n: "n < 65536" and ok: "partial_ok e (in_pseudo6 p n (v6_nh p)) (v6_body p) k"
  shows "partial_ok e (in_pseudo4 e R p n (v6_nh p)) (v4_body (pkt (w_skb w'))) k"
proof -
  define flags where "flags = (if v6_nh p = 6 then BPF_F_PSEUDO_HDR else BPF_F_PSEUDO_HDR OR BPF_F_MARK_MANGLED_0)"
  have fl: "v6_nh p = 6 \<and> k = 16 \<and> flags = BPF_F_PSEUDO_HDR \<or>
         v6_nh p = 17 \<and> k = 6 \<and> flags = BPF_F_PSEUDO_HDR OR BPF_F_MARK_MANGLED_0" using p(3) by (auto simp: flags_def)
  show ?thesis
  proof (rule bpf_kernel.ingress_csum_frame [OF K t p(1,2) fl])
    fix c' chk let ?c = "ld16 e (v6_body p ! k) (v6_body p ! Suc k)" and ?d = "ingress_diff e K R (ingress_vars e R p)"
    assume q: "pkt (w_skb w') = rfc_frame4 e R p (v6_len p) chk [] @ overwrite k (st16 e c') (v6_body p)"
      and v: "valid_header4 e R p (v6_len p) chk" and l: "k + 2 \<le> length (v6_body p)" "62 \<le> length p"
      and u: "l4_update (is_partial (w_skb w)) flags ?c (ucast ?d) c'" and z: "v6_nh p = 17 \<longrightarrow> ?c \<noteq> 0"
    have "eqc (uint c') (uint ?c + uint ?d)"
      using u pa z fl bpf_kernel.tcp_flags(3) [OF K] by (auto simp: l4_update_def uint_ucast_u64 split: if_splits)
    moreover have "eqc (uint ?c + uint ?d) (int (nsum e (in_pseudo6 p n (v6_nh p))) + uint ?d)"
      using ok by (intro eqc_add eqc_refl) (simp add: partial_ok_def)
    moreover have "eqc (int (nsum e (in_pseudo6 p n (v6_nh p))) + uint ?d) (int (nsum e (in_pseudo4 e R p n (v6_nh p))))"
      using bpf_kernel.ingress_diff_eqc [OF K l(2) n, of R "v6_nh p"] by (simp add: add.commute)
    ultimately have "eqc (uint c') (int (nsum e (in_pseudo4 e R p n (v6_nh p))))" using eqc_trans by blast
    then show ?thesis
      using l(1) ld16_overwrite [of k "v6_body p" e c'] by (simp add: partial_ok_def q v4_body_frame [OF l(2) v])
  qed
qed

text \<open>
  (C10) An ICMPv6 echo message whose checksum verifies against the IPv6
  pseudo-header becomes the ICMPv4 echo message of the same direction whose checksum verifies,
  with one kind of message left out: an echo reply whose every byte behind the type and the
  checksum is zero.
\<close>

theorem ingress_echo_checksum:
  assumes K: "bpf_kernel e K" and t: "ingress_translates e K R w w'"
    and p: "p = pkt (w_skb w)" "v6_nh p = 58" "v6_body p ! 0 \<in> {128, 129}" and np: "\<not> is_partial (w_skb w)"
    and n: "4 \<le> v6_len p" "v6_len p \<le> length (v6_body p)"
    and ok: "inet_ok (in_pseudo6 p (v6_len p) 58 @ take (v6_len p) (v6_body p))"
    and nz: "v6_body p ! 0 = 128 \<or> (\<exists>x \<in> set (v6_body p ! 1 # drop 4 (take (v6_len p) (v6_body p))). x \<noteq> 0)"
  shows "inet_ok (take (v6_len p) (v4_body (pkt (w_skb w')))) \<and>
    (v6_body p ! 0, v4_body (pkt (w_skb w')) ! 0) \<in> {(128, 8), (129, 0)}"
proof -
  let ?b = "v6_body p" and ?t = "if v6_body p ! 0 = 129 then 0 else 8 :: u8"
  have p3: "?b ! 0 = 129 \<or> ?b ! 0 = 128" using p(3) by auto
  show ?thesis
  proof (rule bpf_kernel.ingress_echo_frame [OF K t p(1,2) p3])
    fix c' chk and d :: u32
    assume q: "pkt (w_skb w') = rfc_frame4 e R p (v6_len p) chk [] @ overwrite 2 (st16 e c') (overwrite 0 [?t] ?b)"
      and v: "valid_header4 e R p (v6_len p) chk" and l: "8 \<le> length ?b" "62 \<le> length p"
      and u: "l4_update (is_partial (w_skb w)) BPF_F_PSEUDO_HDR (ld16 e (?b ! 2) (?b ! 3)) (ucast d) c'"
      and d: "eqc (uint d + int (nsum e (in_pseudo6 p (v6_len p) 58)) + int (nsum e [?b ! 0, ?b ! 1])) (int (nsum e [?t, ?b ! 1]))"
    have c': "eqc (uint c' + uint d) (uint (ld16 e (?b ! 2) (?b ! 3)))"
      using u np bpf_kernel.tcp_flags(3) [OF K] by (simp add: l4_update_def uint_ucast_u64)
    have "even (length (in_pseudo6 p (v6_len p) 58))" using even_in_pseudo(1) [of p] l(2) by simp
    moreover have "?t \<noteq> 0 \<or> (\<exists>x \<in> set (?b ! 1 # drop 4 (take (v6_len p) ?b)). x \<noteq> 0)" using nz by auto
    ultimately have "inet_ok (take (v6_len p) (overwrite 2 (st16 e c') (overwrite 0 [?t] ?b)))"
      by (rule bpf_kernel.echo_valid [OF K _ n c' d ok])
    moreover have "overwrite 2 (st16 e c') (overwrite 0 [?t] ?b) ! 0 = ?t"
      using l by (simp add: overwrite_def nth_append)
    ultimately show ?thesis using p3 by (auto simp: q v4_body_frame [OF l(2) v])
  qed
qed

section \<open>Refinement of RFC 7915\<close>

text \<open>The bytes behind the IP header that the translation may change.\<close>

definition ingress_touched :: "bytes \<Rightarrow> nat set" where
  "ingress_touched p =
     (if \<not> v6_first p then {} else if v6_nh p = 6 then {16, 17} else if v6_nh p = 17 then {6, 7}
      else if v6_nh p = 58 then {0, 2, 3} else {})"

lemma ingress_frame4:
  assumes K: "bpf_kernel e K" and t: "ingress_translates e K R w w'" and p: "p = pkt (w_skb w)"
    and ne: "v6_nh p = 58 \<and> v6_first p \<longrightarrow> v6_body p ! 0 \<in> {128, 129}"
  shows "\<exists>chk l4'. pkt (w_skb w') = rfc_frame4 e R p (v6_len p) chk l4' \<and>
    inet_ok (rfc_header4 e R p (v6_len p) chk) \<and> length chk = 2 \<and> length l4' = length (v6_body p) \<and>
    (\<forall>i. i \<notin> ingress_touched p \<longrightarrow> l4' ! i = v6_body p ! i)"
proof -
  have ex: ?thesis if "pkt (w_skb w') = rfc_frame4 e R p (v6_len p) chk [] @ xs" "valid_header4 e R p (v6_len p) chk"
      "length xs = length (v6_body p)" "\<And>i. i \<notin> ingress_touched p \<Longrightarrow> xs ! i = v6_body p ! i" for chk xs
    using that by (intro exI [of _ chk] exI [of _ xs])
      (simp add: rfc_frame4_append [of e R p "v6_len p" chk xs] valid_header4_def)
  consider (skip) "\<not> v6_first p \<or> v6_nh p \<notin> {58, 6, 17}" | (tcp) "v6_first p" "v6_nh p = 6"
    | (udp) "v6_first p" "v6_nh p = 17" | (icmp) "v6_first p" "v6_nh p = 58" by auto
  then show ?thesis
  proof cases
    case skip
    show ?thesis by (rule bpf_kernel.ingress_other_frame [OF K t p skip], erule ex) simp_all
  next
    case tcp
    show ?thesis
      by (rule bpf_kernel.ingress_csum_frame [OF K t p tcp(1), of 16 BPF_F_PSEUDO_HDR], simp add: tcp(2), erule ex)
        (use tcp in \<open>auto simp: ingress_touched_def intro!: nth_overwrite_other\<close>)
  next
    case udp
    show ?thesis
      by (rule bpf_kernel.ingress_csum_frame [OF K t p udp(1), of 6 "BPF_F_PSEUDO_HDR OR BPF_F_MARK_MANGLED_0"],
          simp add: udp(2), erule ex)
        (use udp in \<open>auto simp: ingress_touched_def intro!: nth_overwrite_other\<close>)
  next
    case icmp
    have other: "overwrite 2 (st16 e c') (overwrite 0 [t4] l4) ! i = l4 ! i"
      if "8 \<le> length l4" "i \<notin> ingress_touched p" for c' t4 i and l4 :: bytes
    proof -
      have "i = 1 \<or> 4 \<le> i" using icmp that(2) by (auto simp: ingress_touched_def)
      with that(1) show ?thesis by (auto simp: nth_overwrite_other)
    qed
    have b: "v6_body p ! 0 = 129 \<or> v6_body p ! 0 = 128" using ne icmp by auto
    show ?thesis
      by (rule bpf_kernel.ingress_echo_frame [OF K t p icmp(2) b], erule ex) (simp_all add: other)
  qed
qed


text \<open>
  (C3) A translated ICMPv6 error is the IPv4 header of RFC 7915 for the
  shorter packet, an ICMPv4 header with the translated type, code, MTU or pointer, the IPv4
  header of the quoted packet, and the rest of the quote, changed at most in its checksum and
  ICMP type. Both IPv4 header checksums verify, and the quoted packet is one that the pod
  sent into the prefix.
\<close>

theorem ingress_error_refines:
  assumes K: "bpf_kernel e K" and t: "ingress_translates e K R w w'" and p: "p = pkt (w_skb w)" "v6_nh p = 58"
    and b: "b = v6_body p" "b ! 0 \<notin> {128, 129}" and z: "z = quote p" and n: "quoted_cut z \<le> v6_len p"
  shows "\<exists>chk qchk c r. pkt (w_skb w') = rfc_frame4 e R p (v6_len p - quoted_cut z) chk
          (overwrite 2 c (rfc_error4 b z @ rfc_quoted4 e R z qchk @ r)) \<and> length c = 2 \<and>
        inet_ok (rfc_header4 e R p (v6_len p - quoted_cut z) chk) \<and> inet_ok (rfc_quoted4 e R z qchk) \<and>
        quoted_ok e R z \<and> length r = length (v6_body z) \<and>
        (\<forall>i. i \<notin> ingress_touched z \<longrightarrow> r ! i = v6_body z ! i)"
proof -
  have er: "error_result e K R p (is_partial (w_skb w)) (pkt (w_skb w'))"
    using bpf_kernel.ingress_error_frame [OF K t p] b(2) n by (simp add: b(1) z)
  have o: "r ! i = v6_body z ! i" if "quoted_edit e K R z l (v6_body z) r" "i \<notin> ingress_touched z" for l r i
    using that
  proof (induction rule: quoted_edit.induct)
    case (echo nt nc)
    then have "v6_first z" by (simp add: v6_first_def)
    with echo have "i = 1 \<or> 4 \<le> i" by (auto simp: ingress_touched_def)
    with echo show ?case by (auto simp: nth_overwrite_other)
  next
    case (field k c nc)
    then have "i < k \<or> k + 2 \<le> i" by (auto simp: ingress_touched_def quoted_coff_def split: if_splits)
    with field show ?case by (auto simp: nth_overwrite_other)
  qed simp
  from er obtain chk qchk c' r s where
    "pkt (w_skb w') = rfc_frame4 e R p (v6_len p - quoted_cut z) chk [] @ overwrite 2 (st16 e c') ((rfc_error4 b z @ rfc_quoted4 e R z qchk) @ r)"
    "valid_header4 e R p (v6_len p - quoted_cut z) chk" "inet_ok (rfc_quoted4 e R z qchk)" "quoted_ok e R z"
    "quoted_edit e K R z (fst (bpf_skb_load_bytes K s (62 + quoted_coff z) 2) = 0) (v6_body z) r"
    unfolding error_result_def Let_def b(1) [symmetric] z [symmetric] by blast
  with o quoted_edit_length show ?thesis
    by (intro exI [of _ chk] exI [of _ qchk] exI [of _ "st16 e c'"] exI [of _ r])
      (auto simp: valid_header4_def rfc_frame4_append [of e R p _ chk "overwrite _ _ _"])
qed

section \<open>Checksums of errors\<close>

lemma eqc_error:
  assumes "eqc (d + P + T) N" and "eqc (d' + B) (d + r)" and "eqc (c + d') 0" and "eqc (P + T + B) 0"
  shows "eqc (N + r + c) 0"
proof -
  have "65535 dvd (c + d' - 0) + (P + T + B - 0) - (d + P + T - N) - (d' + B - (d + r))"
    using assms unfolding eqc_def by (blast intro: dvd_diff dvd_add)
  then show ?thesis unfolding eqc_def by (simp add: algebra_simps)
qed

context bpf_kernel
begin

lemma error_result_valid:
  assumes "error_result e K R p False f" and "inet_ok (in_pseudo6 p (v6_len p) 58 @ v6_body p)"
  shows "inet_ok (v4_body f)"
proof -
  let ?z = "quote p" and ?b = "v6_body p"
  obtain chk qchk c' r new and d d' :: u32 where
    f: "f = rfc_frame4 e R p (v6_len p - quoted_cut ?z) chk [] @ overwrite 2 (st16 e c') (new @ r)"
    and new: "new = rfc_error4 ?b ?z @ rfc_quoted4 e R ?z qchk" and v: "valid_header4 e R p (v6_len p - quoted_cut ?z) chk"
    and qc: "length qchk = 2" and q: "quoted_ok e R ?z" and m: "m_ok (fst (icmp6_to_icmp4 (?b ! 0) (?b ! 1) (word4 ?b) 0))"
    and d: "eqc (uint d + int (nsum e (in_pseudo6 p (v6_len p) 58)) + int (nsum e (take (28 + quoted_cut ?z) ?b))) (int (nsum e new))"
      "eqc (uint d' + int (nsum e (v6_body ?z))) (uint d + int (nsum e r))"
    and u: "l4_update False BPF_F_PSEUDO_HDR 0 (ucast d') c'" and l: "62 \<le> length p" "\<not> v6_is_frag p"
    using assms(1) unfolding error_result_def Let_def by blast
  have n: "length new = 28" using qc q by (simp add: new rfc_error4_field length_rfc_quoted4)
  have "new ! 0 \<noteq> 0" using m_ok_type [OF m] by (auto simp: new rfc_error4_def nth_append split: prod.splits)
  then have nz: "nsum e new \<noteq> 0" using n by (auto simp: nsum_eq_0_iff)
  have "ld16 e ((new @ r) ! 2) ((new @ r) ! (2 + 1)) = 0" by (cases e) (simp_all add: new nth_append rfc_error4_field)
  with nsum_field [of 2 "new @ r" c'] have s: "int (nsum e (overwrite 2 (st16 e c') (new @ r))) =
      int (nsum e new) + int (nsum e r) + uint c'" by (simp add: n nsum_append)
  have c: "eqc (uint c' + uint d') 0"
    using u by (simp add: l4_update_def uint_ucast_u64 flag_defs)
  have ev: "even (length (take (28 + quoted_cut ?z) ?b))"
    using error_old(2) [OF l(2) q] by (simp add: quoted_cut_def)
  have "?b = take (28 + quoted_cut ?z) ?b @ v6_body ?z" by (simp add: drop_quote [OF l(2)])
  then have "nsum e ?b = nsum e (take (28 + quoted_cut ?z) ?b) + nsum e (v6_body ?z)"
    using nsum_append [OF ev] by metis
  moreover have "even (length (in_pseudo6 p (v6_len p) 58))" using even_in_pseudo(1) [of p] l(1) by simp
  ultimately have "eqc (int (nsum e (in_pseudo6 p (v6_len p) 58)) + int (nsum e (take (28 + quoted_cut ?z) ?b)) +
      int (nsum e (v6_body ?z))) 0"
    using assms(2) by (simp add: inet_ok_iff [of _ e] nsum_append add.assoc)
  from eqc_error [OF d c this] have "eqc (int (nsum e (overwrite 2 (st16 e c') (new @ r)))) 0" by (simp only: s)
  moreover have "nsum e (overwrite 2 (st16 e c') (new @ r)) \<noteq> 0" using s nz by (metis add_is_0 int_nat_eq of_nat_0_eq_iff of_nat_add uint_nat)
  ultimately show ?thesis unfolding f v4_body_frame [OF l(1) v] by (simp add: inet_ok_iff [of _ e])
qed

end

text \<open>
  (C4) An ICMPv6 error whose checksum verifies becomes an ICMPv4 error
  whose checksum verifies over the whole new message, whatever became of the quoted packet
  and its own checksum.
\<close>

theorem ingress_error_checksum:
  assumes K: "bpf_kernel e K" and t: "ingress_translates e K R w w'" and p: "p = pkt (w_skb w)" "v6_nh p = 58"
    and b: "v6_body p ! 0 \<notin> {128, 129}" and np: "\<not> is_partial (w_skb w)" and n: "quoted_cut (quote p) \<le> v6_len p"
    and ok: "inet_ok (in_pseudo6 p (v6_len p) 58 @ v6_body p)"
  shows "inet_ok (v4_body (pkt (w_skb w')))"
  using bpf_kernel.error_result_valid [OF K _ ok] bpf_kernel.ingress_error_frame [OF K t p b n] np by simp

inductive_cases quoted_editE: "quoted_edit e K R z loaded r r'"

context bpf_kernel
begin

lemma quoted_field_valid:
  assumes z: "54 \<le> length z" and m: "m < 65536" and k: "even k" "k + 2 \<le> length b" and nh: "nh \<noteq> 0"
    and nw: "unat (quoted_diff e K R z) + unat (NOT (ld16 e (b ! k) (b ! (k + 1)))) < 2 ^ 32"
    and ok: "inet_ok (in_pseudo6 z m nh @ b @ rest)"
  shows "inet_ok (quoted_pseudo4 e R z m nh @
    overwrite k (st16 e (quoted_csum (quoted_diff e K R z) (ld16 e (b ! k) (b ! (k + 1))))) b @ rest)"
proof -
  let ?nc = "quoted_csum (quoted_diff e K R z) (ld16 e (b ! k) (b ! (k + 1)))"
  have "inet_ok (quoted_pseudo4 e R z m nh @ overwrite k (st16 e ?nc) (b @ rest))"
  proof (rule inet_ok_update [OF ok])
    show "even (length (in_pseudo6 z m nh))" using even_in_pseudo(1) [of z] z by simp
    show "even (length (quoted_pseudo4 e R z m nh))" using z by (simp add: quoted_pseudo4_def)
    show "window k 2 (b @ rest) = st16 e (ld16 e (b ! k) (b ! (k + 1)))"
      using k(2) window2_st16 [of k b] by (simp add: window_def)
    show "nsum e (quoted_pseudo4 e R z m nh) \<noteq> 0" using nh by (simp add: nsum_eq_0_iff quoted_pseudo4_def)
  qed (use k quoted_csum_eqc [OF nw] quoted_diff_eqc [OF z m] in simp_all)
  then show ?thesis using k(2) by (simp add: overwrite_append_left)
qed

end


text \<open>
  (C32) The quoted checksum field is updated exactly when the plain 32-bit
  addition of the difference and the complemented field does not wrap: the carry out of the
  addition is lost, and the field is off by one in ones' complement arithmetic.
\<close>

theorem quoted_csum_exact:
  "eqc (uint (quoted_csum diff oc) + uint diff) (uint oc) \<longleftrightarrow> unat diff + unat (NOT oc) < 2 ^ 32"
proof (cases "unat diff + unat (NOT oc) < 2 ^ 32")
  case False
  then have c: "eqc (uint (quoted_csum diff oc) + uint diff) (uint oc + 1)" using quoted_csum_carry [of diff oc] by simp
  have "\<not> eqc (uint oc + 1) (uint oc)" by (simp add: eqc_def)
  then have "\<not> eqc (uint (quoted_csum diff oc) + uint diff) (uint oc)" using eqc_trans [OF eqc_sym [OF c]] by blast
  with False show ?thesis by simp
qed (simp add: quoted_csum_eqc)

section \<open>Lengths\<close>

text \<open>
  (C33) The total length field of a translated packet that is not an error
  is the length of header and payload exactly when the payload has at most 65515 bytes; for
  more the 16-bit sum wraps.
\<close>

theorem ingress_total_length:
  assumes "bpf_kernel e K" and "ingress_translates e K R w w'" and "p = pkt (w_skb w)"
    and "v6_nh p = 58 \<and> v6_first p \<longrightarrow> v6_body p ! 0 \<in> {128, 129}" and "q = pkt (w_skb w')"
  shows "unat (join16 (q ! 16) (q ! 17)) = v6_len p + 20 \<longleftrightarrow> v6_len p \<le> 65515"
proof -
  have p: "62 \<le> length p"
    by (rule bpf_kernel.ingress_at_l4 [OF assms(1-3)])
  obtain chk l4' where "pkt (w_skb w') = rfc_frame4 e R p (v6_len p) chk l4'"
    using ingress_frame4 [OF assms(1-4)] by blast
  then have "join16 (q ! 16) (q ! 17) = word_of_nat (v6_len p + 20)"
    using p by (simp add: assms(5) rfc_frame4_def rfc_header4_def nth_append net16_def)
  moreover have "unat (word_of_nat (v6_len p + 20) :: u16) = (v6_len p + 20) mod 65536"
    by (simp only: unsigned_of_nat take_bit_eq_mod) simp
  ultimately show ?thesis
    using v6_len_less [of p] by (cases "v6_len p \<le> 65515") (simp_all add: le_mod_geq)
qed

text \<open>
  (C34) The MTU of a translated Packet Too Big is the old one, capped at 65535,
  less the 20 or 28 bytes the headers shrink by, and never below the 68 bytes every IPv4 link
  carries nor above 65515, so that it fits its 16-bit field.
\<close>

theorem frag_mtu_bounds:
  "unat (frag_mtu frag mtu) = max 68 (min 65535 (unat mtu) - (20 + (if frag then 8 else 0))) \<and>
   68 \<le> unat (frag_mtu frag mtu) \<and> unat (frag_mtu frag mtu) \<le> 65515"
  using frag_mtu_nat [of frag mtu] by auto

section \<open>What is let through\<close>

lemma hdr6_version: "54 \<le> length p \<Longrightarrow> ip6_version e (hdr6 e p) = drop_bit 4 (p ! 14)"
  by (simp add: ip6_version_def hdr6_fields)

lemma clat_flow_bytes:
  assumes "102 \<le> length p"
  shows "clat_flow e R (ipv6hdr_of e (window 62 40 p)) \<longleftrightarrow> drop_bit 4 (p ! 62) = 6 \<and>
    window 70 16 p = in6_bytes e (POD_IP6 R) \<and> window 86 12 p = take 12 (in6_bytes e (CLAT_PREFIX R))"
proof -
  have z: "54 \<le> length (drop 48 p)" using assms by simp
  have h: "ipv6hdr_of e (window 62 40 p) = hdr6 e (drop 48 p)" by (simp add: hdr6_def window_def)
  have "in6_of e (window 70 16 p) = POD_IP6 R \<longleftrightarrow> window 70 16 p = in6_bytes e (POD_IP6 R)"
    using assms in6_bytes_in6_of [of "window 70 16 p" e] in6_of_in6_bytes [of e "POD_IP6 R"] by auto
  moreover have "in_prefix R (in6_of e (window 86 16 p)) \<longleftrightarrow> window 86 12 p = take 12 (in6_bytes e (CLAT_PREFIX R))"
    using assms by (simp add: in_prefix_bytes [of _ _ e] in6_bytes_in6_of) (simp add: window_def)
  moreover have "window 22 16 (drop 48 p) = window 70 16 p" "window 38 16 (drop 48 p) = window 86 16 p"
    by (simp_all add: window_def)
  ultimately show ?thesis
    using z by (simp add: clat_flow_def h hdr6_version hdr6_fields)
qed

lemma small_type: "t \<noteq> 0 \<Longrightarrow> t \<le> 4 \<Longrightarrow> t \<in> {1, 2, 3, 4}" for t :: u8
proof -
  assume "t \<noteq> 0" "t \<le> 4"
  then have "unat t \<noteq> 0" "unat t \<le> 4" by (simp_all add: word_le_nat_alt unsigned_eq_0_iff)
  then have "unat t \<in> {1, 2, 3, 4}" by auto
  then show ?thesis by (auto simp: word_unat_eq_iff)
qed

lemma udp_field_nonzero:
  assumes K: "bpf_kernel e K" and t: "ingress_translates e K R w w'" and p: "p = pkt (w_skb w)" "v6_first p" "v6_nh p = 17"
  shows "window 6 2 (v6_body p) \<noteq> [0, 0]"
proof (rule bpf_kernel.ingress_csum_frame [OF K t p(1,2), of 6 "BPF_F_PSEUDO_HDR OR BPF_F_MARK_MANGLED_0"])
  assume l: "6 + 2 \<le> length (v6_body p)" and z: "v6_nh p = 17 \<longrightarrow> ld16 e (v6_body p ! 6) (v6_body p ! Suc 6) \<noteq> 0"
  then show ?thesis using bpf_kernel.window2_st16 [OF K l] st16_zero [of e] p(3) by metis
qed (simp add: p(3))

text \<open>
  (C12) No packet is translated unless it is an IPv6 frame to the pod's own
  address that comes either from the prefix or, as an ICMPv6 error, quotes a packet the pod
  sent into the prefix; no packet with an extension header is, no fragment of an ICMPv6
  message, and no UDP datagram without a checksum. All this holds whatever helper calls fail.
\<close>

theorem ingress_filters:
  assumes K: "bpf_kernel e K" and t: "ingress_translates e K R w w'" and p: "p = pkt (w_skb w)"
  shows "[p ! 12, p ! 13] = [0x86, 0xdd] \<and> drop_bit 4 (p ! 14) = 6 \<and>
    window 38 16 p = in6_bytes e (POD_IP6 R) \<and>
    (window 22 12 p = take 12 (in6_bytes e (CLAT_PREFIX R)) \<or>
     p ! 20 = 58 \<and> p ! 54 \<in> {1, 2, 3, 4} \<and> drop_bit 4 (p ! 62) = 6 \<and> window 70 16 p = in6_bytes e (POD_IP6 R) \<and>
     window 86 12 p = take 12 (in6_bytes e (CLAT_PREFIX R))) \<and>
    \<not> is_ext_hdr (v6_nh p) \<and> \<not> (v6_is_frag p \<and> v6_nh p = 58) \<and>
    (v6_first p \<and> v6_nh p = 17 \<longrightarrow> window 6 2 (v6_body p) \<noteq> [0, 0])"
proof -
  have acc: "ingress_accepts e R p" by (rule bpf_kernel.ingress_at_l4 [OF K t p])
  then have m: "ingress_matches e R p" and l: "62 \<le> length p"
    by (simp_all add: ingress_accepts_def ingress_matches_def Let_def)
  have p': "54 \<le> length p" using l by simp
  note f = hdr6_fields [OF p', of e] hdr6_version [OF p', of e]
  have "join16 (p ! 12) (p ! 13) = join16 0x86 0xdd"
    using m by (simp add: ingress_matches_def ld16_eq_htons ETH_P_IPV6_def) (simp add: join16_def)
  moreover have "in6_of e (window 38 16 p) = POD_IP6 R" "drop_bit 4 (p ! 14) = 6"
    using m by (simp_all add: ingress_matches_def f)
  moreover from this have "window 38 16 p = in6_bytes e (POD_IP6 R)" using l in6_bytes_in6_of [of "window 38 16 p" e] by simp
  moreover have "v6_mapped e R p \<or> p ! 20 = 58 \<and> 102 \<le> length p \<and> p ! 54 \<in> {1, 2, 3, 4} \<and>
      clat_flow e R (ipv6hdr_of e (window 62 40 p))"
    using m small_type [of "p ! 54"] unfolding ingress_matches_def f in_prefix_v6 [OF p'] by (simp add: const_defs) blast
  moreover have "\<not> is_ext_hdr (v6_nh p)" "\<not> (v6_is_frag p \<and> v6_nh p = 58)"
    using acc by (auto simp: ingress_accepts_def ingress_vars_fields [OF l] Let_def)
  moreover have "window 6 2 (v6_body p) \<noteq> [0, 0]" if "v6_first p" "v6_nh p = 17"
    by (rule udp_field_nonzero [OF K t p that])
  ultimately show ?thesis
    using clat_flow_bytes [of p e R] by (auto simp: v6_mapped_def)
qed

section \<open>Progress\<close>

text \<open>
  (C14) With a kernel that serves every valid call, every packet that
  passes the checks is translated: an IPv6 frame of CLAT return traffic without extension
  headers, with a transport header long enough for its checksum, a UDP checksum that is not
  zero, and, in an error, a translatable type and a quoted packet of the pod.
\<close>

theorem ingress_translates_ready:
  assumes "bpf_kernel_live e K" and "ingress_ready e R w"
  shows "\<exists>w'. ingress_translates e K R w w'"
  by (rule bpf_kernel_live.ingress_live [OF assms])

section \<open>Examples\<close>

text \<open>
  Return traffic of the example pod: from 198.51.100.1 behind the prefix a TCP segment with a
  full and with a partial checksum, a UDP datagram and an echo reply, and from the router
  2001:db8::1 a port unreachable error that quotes a UDP datagram of the pod.
\<close>

definition ex_world6 :: "csum_state \<Rightarrow> bytes \<Rightarrow> world" where
  "ex_world6 c p = \<lparr>w_skb = \<lparr>pkt = p, linear = 14, protocol = ETH_P_IPV6, ip_summed = c\<rparr>,
                    clat_counters = counters_init\<rparr>"

definition ex_peer6 :: bytes where
  "ex_peer6 = [0, 0x64, 0xff, 0x9b, 0, 0, 0, 0, 0, 0, 0, 0, 198, 51, 100, 1]"

definition ex_pod6 :: bytes where
  "ex_pod6 = [0xfd, 0, 0, 0, 0, 0, 0, 0, 0, 0, 0, 0, 0, 0, 0, 0x10]"

definition ex_router6 :: bytes where
  "ex_router6 = [0x20, 0x01, 0x0d, 0xb8, 0, 0, 0, 0, 0, 0, 0, 0, 0, 0, 0, 1]"

definition ex_ip6 :: "bytes \<Rightarrow> bytes \<Rightarrow> u8 \<Rightarrow> bytes \<Rightarrow> bytes" where
  "ex_ip6 src dst nh l4 = [0x60, 0, 0, 0, 0, word_of_nat (length l4), nh, 64] @ src @ dst @ l4"

definition ex_frame6 :: "bytes \<Rightarrow> u8 \<Rightarrow> bytes \<Rightarrow> bytes" where
  "ex_frame6 src nh l4 = [0, 0, 0, 0, 0, 0, 0, 0, 0, 0, 0, 0, 0x86, 0xdd] @ ex_ip6 src ex_pod6 nh l4"

definition ex_tcp6 :: "u8 \<Rightarrow> u8 \<Rightarrow> bytes" where
  "ex_tcp6 c d = ex_frame6 ex_peer6 6 [0, 80, 192, 0, 0, 0, 0, 9, 0, 0, 0, 2, 80, 18, 32, 0, c, d, 0, 0]"

definition ex_udp6 :: bytes where
  "ex_udp6 = ex_frame6 ex_peer6 17 [0, 53, 48, 57, 0, 9, 103, 40, 65]"

definition ex_echo6 :: bytes where
  "ex_echo6 = ex_frame6 ex_peer6 58 [129, 0, 87, 111, 0, 7, 0, 1]"

definition ex_error6 :: bytes where
  "ex_error6 = ex_frame6 ex_router6 58
     ([1, 4, 98, 142, 0, 0, 0, 0] @ ex_ip6 ex_pod6 ex_peer6 17 [48, 57, 0, 53, 0, 9, 103, 40, 65])"

lemmas ex6_defs = ex_pod_def ex_world6_def ex_peer6_def ex_pod6_def ex_router6_def ex_ip6_def ex_frame6_def
  ex_tcp6_def ex_udp6_def ex_echo6_def ex_error6_def

lemmas ready6_defs = ingress_ready_def ingress_l4_ready_def error_ready_def ingress_accepts_def ingress_matches_def
  ingress_vars_def hdr6_def fhdr6_def ip6_version_def ipv6hdr_of_def clat_flow_def in_prefix_def in6_of_def window_def
  quoted_ok_def v6_is_frag_def v6_nh_def v6_first_def v6_body_def v6_len_def quote_def quoted_cut_def word4_def
  is_ext_hdr_def skb_wf_def counters_init_def icmp6_to_icmp4_def Let_def

lemma ex_tcp6_ready: "ingress_ready e (ex_pod e) (ex_world6 cs (ex_tcp6 c d))"
  by (cases e) (simp_all add: ready6_defs ex6_defs ld16_eq_htons ETH_P_IPV6_def join16_def const_defs
      del: ld16.simps ld32.simps)

lemma ex_udp6_ready: "ingress_ready e (ex_pod e) (ex_world6 cs ex_udp6)"
  by (cases e) (simp_all add: ready6_defs ex6_defs ld16_eq_htons ETH_P_IPV6_def join16_def const_defs
      del: ld16.simps ld32.simps)

lemma ex_echo6_ready: "ingress_ready e (ex_pod e) (ex_world6 cs ex_echo6)"
  by (cases e) (simp_all add: ready6_defs ex6_defs ld16_eq_htons ETH_P_IPV6_def join16_def const_defs
      del: ld16.simps ld32.simps)

lemma ex_error6_ready: "ingress_ready e (ex_pod e) (ex_world6 cs ex_error6)"
  by (cases e) (simp_all add: ready6_defs ex6_defs ld16_eq_htons ETH_P_IPV6_def join16_def const_defs
      del: ld16.simps ld32.simps)

lemmas ex6_eval = ex6_defs ready6_defs is_partial_def inet_ok_def ones_add_def join16_def in_pseudo6_def net32_def
  hi16_def lo16_def hi8_def lo8_def partial_ok_def

theorem ingress_checksum_witness:
  "\<exists>w'. ingress_translates LITTLE_ENDIAN (ref_kernel LITTLE_ENDIAN) (ex_pod LITTLE_ENDIAN)
          (ex_world6 CHECKSUM_NONE ex_udp6) w' \<and>
        inet_ok (in_pseudo4 LITTLE_ENDIAN (ex_pod LITTLE_ENDIAN) ex_udp6 9 17 @ take 9 (v4_body (pkt (w_skb w'))) @ [])"
proof -
  obtain w' where t: "ingress_translates LITTLE_ENDIAN (ref_kernel LITTLE_ENDIAN) (ex_pod LITTLE_ENDIAN)
      (ex_world6 CHECKSUM_NONE ex_udp6) w'" using ref.ingress_live [OF ex_udp6_ready] by blast
  have nh: "v6_nh ex_udp6 = 17" by (simp add: ex6_eval)
  have "inet_ok (in_pseudo4 LITTLE_ENDIAN (ex_pod LITTLE_ENDIAN) ex_udp6 9 17 @ take 9 (v4_body (pkt (w_skb w'))) @ [])"
    using ingress_checksum [OF ref.bpf_kernel_axioms t, of ex_udp6 6 9 9 "[]"] unfolding nh
    by (simp add: ex6_eval)
  with t show ?thesis by blast
qed

theorem ingress_partial_witness:
  "\<exists>w'. ingress_translates BIG_ENDIAN (ref_kernel BIG_ENDIAN) (ex_pod BIG_ENDIAN)
          (ex_world6 CHECKSUM_PARTIAL (ex_tcp6 39 96)) w' \<and>
        partial_ok BIG_ENDIAN (in_pseudo4 BIG_ENDIAN (ex_pod BIG_ENDIAN) (ex_tcp6 39 96) 20 6)
          (v4_body (pkt (w_skb w'))) 16"
proof -
  obtain w' where t: "ingress_translates BIG_ENDIAN (ref_kernel BIG_ENDIAN) (ex_pod BIG_ENDIAN)
      (ex_world6 CHECKSUM_PARTIAL (ex_tcp6 39 96)) w'" using ref.ingress_live [OF ex_tcp6_ready] by blast
  have nh: "v6_nh (ex_tcp6 39 96) = 6" "v6_first (ex_tcp6 39 96)" by (simp_all add: ex6_eval)
  have "partial_ok BIG_ENDIAN (in_pseudo6 (ex_tcp6 39 96) 20 6) (v6_body (ex_tcp6 39 96)) 16"
    by (simp add: ex6_eval eqc_def)
  then have "partial_ok BIG_ENDIAN (in_pseudo4 BIG_ENDIAN (ex_pod BIG_ENDIAN) (ex_tcp6 39 96) 20 6)
      (v4_body (pkt (w_skb w'))) 16"
    using ingress_partial [OF ref.bpf_kernel_axioms t, of "ex_tcp6 39 96" 16 20] nh
    by (simp add: ex_world6_def is_partial_def)
  with t show ?thesis by blast
qed

theorem ingress_echo_checksum_witness:
  "\<exists>w'. ingress_translates LITTLE_ENDIAN (ref_kernel LITTLE_ENDIAN) (ex_pod LITTLE_ENDIAN)
          (ex_world6 CHECKSUM_NONE ex_echo6) w' \<and> v4_body (pkt (w_skb w')) ! 0 = 0"
proof -
  obtain w' where t: "ingress_translates LITTLE_ENDIAN (ref_kernel LITTLE_ENDIAN) (ex_pod LITTLE_ENDIAN)
      (ex_world6 CHECKSUM_NONE ex_echo6) w'" using ref.ingress_live [OF ex_echo6_ready] by blast
  have "v4_body (pkt (w_skb w')) ! 0 = 0"
    using ingress_echo_checksum [OF ref.bpf_kernel_axioms t, of ex_echo6] by (simp add: ex6_eval)
  with t show ?thesis by blast
qed


lemma ex_error6_fields:
  "v6_nh ex_error6 = 58" "v6_body ex_error6 ! 0 = 1" "v6_len ex_error6 = 57" "quoted_cut (quote ex_error6) = 20"
  "v6_nh (quote ex_error6) = 17" "v6_first (quote ex_error6)" "length (v6_body (quote ex_error6)) = 9"
  by (simp_all add: ex6_eval)

theorem ingress_error_refines_witness:
  "\<exists>w' chk f. ingress_translates BIG_ENDIAN (ref_kernel BIG_ENDIAN) (ex_pod BIG_ENDIAN)
             (ex_world6 CHECKSUM_NONE ex_error6) w' \<and>
           pkt (w_skb w') = rfc_frame4 BIG_ENDIAN (ex_pod BIG_ENDIAN) ex_error6 37 chk f"
proof -
  obtain w' where t: "ingress_translates BIG_ENDIAN (ref_kernel BIG_ENDIAN) (ex_pod BIG_ENDIAN)
      (ex_world6 CHECKSUM_NONE ex_error6) w'" using ref.ingress_live [OF ex_error6_ready] by blast
  from ingress_error_refines [OF ref.bpf_kernel_axioms t, of ex_error6 "v6_body ex_error6" "quote ex_error6"] t
  show ?thesis by (auto simp: ex_world6_def ex_error6_fields)
qed

theorem ingress_error_checksum_witness:
  "\<exists>w'. ingress_translates LITTLE_ENDIAN (ref_kernel LITTLE_ENDIAN) (ex_pod LITTLE_ENDIAN)
          (ex_world6 CHECKSUM_NONE ex_error6) w' \<and> inet_ok (v4_body (pkt (w_skb w')))"
proof -
  obtain w' where t: "ingress_translates LITTLE_ENDIAN (ref_kernel LITTLE_ENDIAN) (ex_pod LITTLE_ENDIAN)
      (ex_world6 CHECKSUM_NONE ex_error6) w'" using ref.ingress_live [OF ex_error6_ready] by blast
  have "inet_ok (in_pseudo6 ex_error6 57 58 @ v6_body ex_error6)" by (simp add: ex6_eval)
  with ingress_error_checksum [OF ref.bpf_kernel_axioms t, of ex_error6]
  have "inet_ok (v4_body (pkt (w_skb w')))" by (simp add: ex_world6_def is_partial_def ex_error6_fields)
  with t show ?thesis by blast
qed

lemma ref_diff_small: "unat (quoted_diff e (ref_kernel e) R z) \<le> 65535"
proof -
  have "fold1c n mod 4294967296 \<le> 65535" for n
    using fold1c_le [of n] by simp
  then show ?thesis
    by (simp add: quoted_diff_def ref_kernel_def ref_csum_diff_def unsigned_of_int unsigned_of_nat take_bit_eq_mod)
qed


theorem ingress_total_length_witness:
  "\<exists>w'. ingress_translates LITTLE_ENDIAN (ref_kernel LITTLE_ENDIAN) (ex_pod LITTLE_ENDIAN)
          (ex_world6 CHECKSUM_NONE ex_udp6) w' \<and> unat (join16 (pkt (w_skb w') ! 16) (pkt (w_skb w') ! 17)) = 29"
proof -
  obtain w' where t: "ingress_translates LITTLE_ENDIAN (ref_kernel LITTLE_ENDIAN) (ex_pod LITTLE_ENDIAN)
      (ex_world6 CHECKSUM_NONE ex_udp6) w'" using ref.ingress_live [OF ex_udp6_ready] by blast
  have "v6_len ex_udp6 = 9" "v6_nh ex_udp6 = 17" by (simp_all add: ex6_eval)
  with ingress_total_length [OF ref.bpf_kernel_axioms t, of ex_udp6] t show ?thesis
    by (auto simp: ex_world6_def)
qed

theorem ingress_filters_witness:
  "\<exists>w'. ingress_translates LITTLE_ENDIAN (ref_kernel LITTLE_ENDIAN) (ex_pod LITTLE_ENDIAN)
          (ex_world6 CHECKSUM_NONE ex_echo6) w' \<and>
        window 38 16 ex_echo6 = in6_bytes LITTLE_ENDIAN (POD_IP6 (ex_pod LITTLE_ENDIAN))"
proof -
  obtain w' where t: "ingress_translates LITTLE_ENDIAN (ref_kernel LITTLE_ENDIAN) (ex_pod LITTLE_ENDIAN)
      (ex_world6 CHECKSUM_NONE ex_echo6) w'" using ref.ingress_live [OF ex_echo6_ready] by blast
  from ingress_filters [OF ref.bpf_kernel_axioms t, of ex_echo6] t show ?thesis by (auto simp: ex_world6_def)
qed

theorem ingress_translates_ready_witness:
  "\<exists>w'. ingress_translates BIG_ENDIAN (ref_kernel BIG_ENDIAN) (ex_pod BIG_ENDIAN)
          (ex_world6 CHECKSUM_NONE ex_error6) w'"
  by (rule ingress_translates_ready [OF ref.bpf_kernel_live_axioms ex_error6_ready])

end
