(* ===== verification/Spec2Isabelle.thy ===== *)
theory Spec2Isabelle
  imports Helper_Defs Ingress_Correct
begin

text \<open>
  A verification development of the packet translator of cilium-clat.

  \<^bold>\<open>The program.\<close> cilium-clat gives pods of an IPv6-only cluster an IPv4 address of their own
  (a CLAT, RFC 6877). Two BPF programs of \<open>bpf/clat.c\<close> at the pod's interface translate
  statelessly (RFC 7915): \<open>clat_egress\<close> turns the IPv4 packets the pod sends into IPv6
  packets to a /96 prefix, \<open>clat_ingress\<close> turns the IPv6 packets that come back from the
  prefix into IPv4, and with them the ICMPv6 errors of routers outside the prefix that quote
  a packet of the pod. Both work through kernel helpers declared in
  \<open>bpf/include/bpf_helper_defs.h\<close>, convert byte orders with the macros of
  \<open>bpf/include/bpf_endian.h\<close>, and count in one per-CPU array how each packet ended. The
  addresses are constants set when the programs are loaded.

  \<^bold>\<open>The theories, bottom up.\<close>

  \<^item> \<open>Prelude\<close>: byte strings, windows and overwrites of them, joining and splitting of words,
    congruence modulo 65535.
  \<^item> \<open>Endian\<close>: \<open>bpf_endian.h\<close>. Every macro has a definition for its two expansions on both byte
    orders \<open>e\<close>; all of the development holds for both.
  \<^item> \<open>Checksum\<close>: \<open>csum_fold\<close>, \<open>word16\<close>; RFC 1071 as \<open>inet_ok\<close>, and the lemmas by
    which a checksum that is filled in or updated verifies.
  \<^item> \<open>Helper_Defs\<close>: the table of \<open>bpf_helper_defs.h\<close> and \<open>bpf_tail_call_static\<close> of
    \<open>bpf_helpers.h\<close>.
  \<^item> \<open>Kernel\<close>: the socket buffer and the helpers as a parameter, the record \<open>kernel\<close>.
    \<open>bpf_kernel\<close> has what a helper's documentation promises when the call succeeds, and
    every call may fail; \<open>bpf_kernel_live\<close> adds that valid calls succeed. \<open>ref_kernel\<close> is
    an executable kernel with both contracts.
  \<^item> \<open>Clat_Base\<close>: headers with their byte layout, the load-time constants \<open>rodata\<close>, the
    counters, \<open>count\<close> and \<open>DROP\<close>, and the address and packet helpers of \<open>clat.c\<close>. A
    program is a function from a \<open>world\<close> (buffer and counters) to a \<open>step\<close>: \<open>Return\<close> with
    a verdict, \<open>Next\<close> with the locals of the next stage, or \<open>Fault\<close>, a direct access outside
    the linear part of the buffer.
  \<^item> \<open>Source_Route\<close>: \<open>ip4_has_source_route\<close>. \<open>Udp_Csum\<close>: \<open>udp_full_csum\<close>.
    \<open>Icmp_Map\<close>: \<open>icmp6_to_icmp4\<close>. Each is compared with a reference definition.
  \<^item> \<open>Verdicts\<close>: the locale \<open>tc_program\<close> of programs that always return and whose counters
    account for the verdict; both programs instantiate it.
  \<^item> \<open>Egress_Model\<close>, \<open>Ingress_Model\<close>: \<open>clat_egress\<close> and \<open>clat_ingress\<close>, cut into the
    stages of their source (parse and match, reshape, transport, errors), with every helper
    call and every early return.
  \<^item> \<open>Egress\<close>, \<open>Ingress\<close>: termination with a verdict, no faults, and accounting.
  \<^item> \<open>Egress_Spec\<close>, \<open>Ingress_Spec\<close>: RFC 7915 as functions from frames to frames
    (\<open>rfc_frame6\<close>, \<open>rfc_frame4\<close>), and stage lemmas that lead a translated packet to the
    transport stage. \<open>Egress_L4\<close>, \<open>Ingress_L4\<close>: the transport stage, partial checksums
    included. \<open>Ingress_Error\<close>: errors and the packets they quote, with the inductive
    relation \<open>quoted_edit\<close> for what may happen to the quote.
  \<^item> \<open>Egress_Live\<close>, \<open>Ingress_Live\<close>: the packets that are always translated.
  \<^item> \<open>Egress_Correct\<close>, \<open>Ingress_Correct\<close>: the properties of the two programs and examples.
  \<^item> This theory: both programs at one pod, as an inductive run over one counter array, and
    what holds across them.

  \<^bold>\<open>What is shown.\<close> Refinement: a translated packet is byte for byte the frame of the
  specification. Checksums: TCP, UDP, ICMP echo, ICMP errors, quoted packets and the IPv4
  headers verify afterwards if they did before, also for first fragments and for checksums
  left to the device. Safety: nothing but CLAT traffic is translated, no program reads out of
  bounds. Liveness: with \<open>bpf_kernel_live\<close> traffic that passes the checks is translated.
  Accounting: each verdict has its counter, over any interleaving of both directions. Round
  trips: a reply has the addresses of the packet exchanged, an error quotes its header. The
  limits of the code are theorems as well: total lengths wrap for payloads beyond 65515
  bytes, the quoted checksum loses a carry, an option that overruns its area is not reported,
  and the ICMP map differs from the RFC for the listed codes and pointers.

  \<^bold>\<open>Bounds.\<close> No fuel was chosen: the two loops have the bounds of the C code, 40 rounds over at most
  40 option bytes and 40 chunks of 256 bytes, and both are shown to be enough
  (\<open>source_route_exact\<close>, \<open>udp_full_csum_total\<close>). Integers have their C width; offsets
  and lengths, which stay far below $2^{32}$, are naturals. Counters are 64-bit words.

  \<^bold>\<open>What is not modelled.\<close> The kernel, which is the parameter described above; its checksum
  state is kept only as far as the programs depend on it, and the size of segmentation
  offload is not. The per-CPU copies of the counter array: a run sees one of them. The
  control plane in Go (\<open>internal/clat\<close>, \<open>cmd/cilium-clat\<close>): configuration, netlink, loading
  and pinning of the programs; what the programs see of it is \<open>rodata\<close>. The generated
  bindings \<open>clat_bpfel.go\<close>, the tests, the deployment manifests, and those macros of
  \<open>bpf_helpers.h\<close> that only set attributes or print. The specification follows the code in
  three choices the RFC leaves to a translator at the end host: the hop limit is copied, packets that are
  not fragments get the don't-fragment flag and identification zero, and options are dropped.
\<close>

section \<open>Both programs at one pod\<close>

text \<open>
  A pod's two programs share one counter map. A step runs one of them on a packet; the
  label has the direction, the verdict and the packet before and after.
\<close>

datatype direction = FromPod | ToPod

record event =
  ev_dir :: direction
  ev_in :: skb
  ev_verdict :: tc_act
  ev_out :: skb

fun pod_prog :: "byte_order \<Rightarrow> kernel \<Rightarrow> rodata \<Rightarrow> direction \<Rightarrow> world \<Rightarrow> unit step" where
  "pod_prog e K R FromPod = clat_egress e K R"
| "pod_prog e K R ToPod = clat_ingress e K R"

inductive pod_run :: "byte_order \<Rightarrow> kernel \<Rightarrow> rodata \<Rightarrow> u64 list \<Rightarrow> event list \<Rightarrow> u64 list \<Rightarrow> bool"
  for e K R where
  idle: "pod_run e K R cs [] cs"
| packet: "pod_prog e K R d \<lparr>w_skb = s, clat_counters = cs\<rparr> = Return a w \<Longrightarrow>
    pod_run e K R (clat_counters w) evs cs' \<Longrightarrow>
    pod_run e K R cs (\<lparr>ev_dir = d, ev_in = s, ev_verdict = a, ev_out = w_skb w\<rparr> # evs) cs'"

inductive_simps pod_run_Nil: "pod_run e K R cs [] cs'"
inductive_simps pod_run_Cons: "pod_run e K R cs (ev # evs) cs'"

fun shots :: "direction \<Rightarrow> event list \<Rightarrow> nat" where
  "shots d [] = 0"
| "shots d (ev # evs) = (if ev_dir ev = d \<and> ev_verdict ev = TC_ACT_SHOT then 1 else 0) + shots d evs"

definition drops_of :: "direction \<Rightarrow> clat_counter set" where
  "drops_of d = (case d of FromPod \<Rightarrow> egress_drops | ToPod \<Rightarrow> ingress_drops)"

lemma drops_disjoint:
  "egress_drops \<inter> ingress_drops = {}" "ingress_drops \<inter> egress_drops = {}"
  "CNT_EGRESS_TRANSLATED \<notin> ingress_drops" "CNT_INGRESS_TRANSLATED \<notin> egress_drops"
  "finite egress_drops" "finite ingress_drops"
  by (auto simp: egress_drops_def ingress_drops_def)

context bpf_kernel
begin

lemma pod_prog_total:
  assumes "pod_prog e K R d w = Return a w'" and "counters_ok w"
  shows "total (drops_of d') (clat_counters w') =
      total (drops_of d') (clat_counters w) + (if d = d' \<and> a = TC_ACT_SHOT then 1 else 0) \<and> counters_ok w'"
proof (cases d)
  case FromPod
  then have r: "clat_egress e K R w = Return a w'" using assms(1) by simp
  show ?thesis
    using egress_run_total [OF r assms(2)] egress_run_other [OF r assms(2) drops_disjoint(6,3,1)] FromPod
    by (cases d') (simp_all add: drops_of_def)
next
  case ToPod
  then have r: "clat_ingress e K R w = Return a w'" using assms(1) by simp
  show ?thesis
    using ingress_run_total [OF r assms(2)] ingress_run_other [OF r assms(2) drops_disjoint(5,4,2)] ToPod
    by (cases d') (simp_all add: drops_of_def)
qed

lemma pod_run_total:
  assumes "pod_run e K R cs evs cs'" and "length cs = unat (counter_index CNT_MAX)"
  shows "total (drops_of d) cs' = total (drops_of d) cs + word_of_nat (shots d evs) \<and> length cs' = length cs"
  using assms
proof (induction rule: pod_run.induct)
  case (packet d' s cs a w evs cs')
  then have "total (drops_of d) (clat_counters w) = total (drops_of d) cs + (if d' = d \<and> a = TC_ACT_SHOT then 1 else 0) \<and>
      length (clat_counters w) = unat (counter_index CNT_MAX)"
    using pod_prog_total [OF packet.hyps(1)] by simp
  with packet show ?case by simp
qed simp

end

lemma pod_run_exists: "\<exists>evs cs'. pod_run e K R cs evs cs' \<and> map (\<lambda>ev. (ev_dir ev, ev_in ev)) evs = ps"
proof (induction ps arbitrary: cs)
  case Nil
  then show ?case using pod_run.idle by fastforce
next
  case (Cons q ps)
  obtain d s where q: "q = (d, s)" by fastforce
  have "\<exists>a w. pod_prog e K R d \<lparr>w_skb = s, clat_counters = cs\<rparr> = Return a w"
    by (cases d) (simp_all add: clat_egress_returns clat_ingress_returns)
  then obtain a w where r: "pod_prog e K R d \<lparr>w_skb = s, clat_counters = cs\<rparr> = Return a w" by blast
  obtain evs cs' where "pod_run e K R (clat_counters w) evs cs'" "map (\<lambda>ev. (ev_dir ev, ev_in ev)) evs = ps"
    using Cons.IH by blast
  with pod_run.packet [OF r] q show ?case by fastforce
qed

section \<open>Properties across programs\<close>

text \<open>
  (C17) Over any interleaving of packets in both directions every packet gets a
  verdict, and the drop counters of each direction together grow by the number of packets
  dropped in that direction, in the 64-bit arithmetic of the counters; neither direction
  touches the drop counters of the other.
\<close>

theorem pod_traffic:
  assumes "bpf_kernel e K" and "length cs = unat (counter_index CNT_MAX)"
  shows "\<exists>evs cs'. pod_run e K R cs evs cs' \<and> map (\<lambda>ev. (ev_dir ev, ev_in ev)) evs = ps \<and>
    total egress_drops cs' = total egress_drops cs + word_of_nat (shots FromPod evs) \<and>
    total ingress_drops cs' = total ingress_drops cs + word_of_nat (shots ToPod evs)"
proof -
  obtain evs cs' where r: "pod_run e K R cs evs cs'" "map (\<lambda>ev. (ev_dir ev, ev_in ev)) evs = ps"
    using pod_run_exists by blast
  from bpf_kernel.pod_run_total [OF assms(1) r(1) assms(2), of FromPod]
    bpf_kernel.pod_run_total [OF assms(1) r(1) assms(2), of ToPod] r show ?thesis
    by (auto simp: drops_of_def)
qed

theorem pod_traffic_witness:
  "\<exists>evs cs'. pod_run BIG_ENDIAN (ref_kernel BIG_ENDIAN) (ex_pod BIG_ENDIAN) counters_init evs cs' \<and>
     map (\<lambda>ev. (ev_dir ev, ev_in ev)) evs =
       [(FromPod, w_skb (ex_world CHECKSUM_NONE ex_echo)), (ToPod, w_skb (ex_world6 CHECKSUM_NONE ex_echo6))]"
  using pod_traffic [OF ref.bpf_kernel_axioms, of counters_init BIG_ENDIAN "ex_pod BIG_ENDIAN"
      "[(FromPod, w_skb (ex_world CHECKSUM_NONE ex_echo)), (ToPod, w_skb (ex_world6 CHECKSUM_NONE ex_echo6))]"]
  by (fastforce simp: counters_init_def)

lemma rfc_frame6_addresses:
  assumes "34 \<le> length p"
  shows "window 22 16 (rfc_frame6 e R p l4) = in6_bytes e (POD_IP6 R)"
    and "window 38 16 (rfc_frame6 e R p l4) = take 12 (in6_bytes e (CLAT_PREFIX R)) @ window 30 4 p"
  using assms by (simp_all add: rfc_frame6_def rfc_header6_def rfc_src6_def rfc_dst6_def window_def)

lemma rfc_frame4_addresses:
  assumes "62 \<le> length p" and "length chk = 2"
  shows "window 26 4 (rfc_frame4 e R p n chk l4) = rfc_src4 e R p"
    and "window 30 4 (rfc_frame4 e R p n chk l4) = rfc_dst4 e R"
  using assms by (simp_all add: rfc_frame4_def rfc_header4_def rfc_frag4_def window_def)

lemma egress_source:
  assumes "bpf_kernel e K" and "egress_translates e K R w w'" and "p = pkt (w_skb w)"
  shows "34 \<le> length p \<and> window 26 4 p = st32 e (POD_IP4 R) \<and> ip_version (hdr4 e p) = 4 \<and>
    v4_hlen p \<le> v4_tot_len p"
proof -
  have acc: "egress_accepts e R p" and p: "34 \<le> length p"
    by (rule bpf_kernel.egress_at_l4 [OF assms], assumption)+
  then have "ip_saddr (hdr4 e p) = POD_IP4 R" by (simp add: egress_accepts_def Let_def)
  then have "window 26 4 p = st32 e (POD_IP4 R)" using p by (simp add: hdr4_fields window_list4 flip: st32_ld32 [of e])
  with acc p show ?thesis by (simp add: egress_accepts_def Let_def hdr4_fields v4_tot_len_def)
qed

text \<open>
  (C15) A reply to a packet the pod sent comes back with the addresses of that
  packet exchanged: when \<open>clat_egress\<close> translates a packet and \<open>clat_ingress\<close> one that
  goes from its IPv6 destination to its IPv6 source, the IPv4 source of the reply is the
  packet's destination and the IPv4 destination its source.
\<close>

theorem reply_round_trip:
  assumes K: "bpf_kernel e K" and eg: "egress_translates e K R w w'" and ig: "ingress_translates e K R v v'"
    and p: "p = pkt (w_skb w)" and q: "q = pkt (w_skb v)"
    and reply: "window 22 16 q = window 38 16 (pkt (w_skb w'))" "window 38 16 q = window 22 16 (pkt (w_skb w'))"
    and ne: "v6_nh q = 58 \<and> v6_first q \<longrightarrow> v6_body q ! 0 \<in> {128, 129}"
  shows "window 26 4 (pkt (w_skb v')) = window 30 4 p \<and> window 30 4 (pkt (w_skb v')) = window 26 4 p"
proof -
  obtain l4 where "pkt (w_skb w') = rfc_frame6 e R p l4" using egress_frame6 [OF K eg p] by blast
  with reply(1) rfc_frame6_addresses(2) egress_source [OF K eg p]
  have s: "window 22 16 q = take 12 (in6_bytes e (CLAT_PREFIX R)) @ window 30 4 p" by metis
  have "62 \<le> length q" by (rule bpf_kernel.ingress_at_l4 [OF K ig q])
  moreover obtain chk l4' where "pkt (w_skb v') = rfc_frame4 e R q (v6_len q) chk l4'" "length chk = 2"
    using ingress_frame4 [OF K ig q ne] by blast
  moreover have "window 22 12 q = take 12 (window 22 16 q)" "window 34 4 q = drop 12 (window 22 16 q)"
    by (simp_all add: window_def drop_take)
  then have "v6_mapped e R q" "window 34 4 q = window 30 4 p" by (simp_all add: s v6_mapped_def)
  ultimately show ?thesis
    using egress_source [OF K eg p] by (simp add: rfc_frame4_addresses rfc_src4_def rfc_dst4_def)
qed

lemma error_result_quote:
  assumes "bpf_kernel e K" and "error_result e K R p partial f"
  obtains qchk where "window 42 20 f = rfc_quoted4 e R (quote p) qchk" and "length qchk = 2"
    and "quoted_ok e R (quote p)"
proof -
  let ?z = "quote p" and ?b = "v6_body p"
  obtain chk qchk c' r where
    f: "f = rfc_frame4 e R p (v6_len p - quoted_cut ?z) chk [] @ overwrite 2 (st16 e c') ((rfc_error4 ?b ?z @ rfc_quoted4 e R ?z qchk) @ r)"
    and v: "valid_header4 e R p (v6_len p - quoted_cut ?z) chk" and qc: "length qchk = 2" "quoted_ok e R ?z" and l: "62 \<le> length p"
    using assms(2) unfolding error_result_def Let_def by blast
  have n: "length (rfc_error4 ?b ?z) = 8" "length (rfc_quoted4 e R ?z qchk) = 20"
    using bpf_kernel.rfc_error4_field(1) [OF assms(1)] bpf_kernel.length_rfc_quoted4 [OF assms(1) qc(2,1)] by simp_all
  have "length (rfc_frame4 e R p (v6_len p - quoted_cut ?z) chk []) = 34"
    using v l by (simp add: valid_header4_def length_rfc_frame4)
  moreover have "drop 8 (overwrite 2 (st16 e c') (xs @ ys)) = ys" if "length xs = 8" for xs ys
    using that by (simp add: overwrite_append_left)
  ultimately have "window 42 20 f = rfc_quoted4 e R ?z qchk"
    using n by (simp add: f window_def drop_append)
  with that qc show thesis by blast
qed

lemma tclass_round_trip: "push_bit 4 (0x60 OR drop_bit 4 t) OR drop_bit 4 (push_bit 4 t) = t" for t :: u8
proof -
  have z: "push_bit 4 (0x60 :: u8) = 0" by simp
  show ?thesis unfolding push_bit_or z by (rule bit_eqI) (auto simp: bit_simps dest: bit_imp_le_length)
qed

text \<open>The header of a translated packet, with any hop limit, translated back as a quote.\<close>

lemma quoted4_of_frame6:
  assumes p: "34 \<le> length p" "v4_hlen p = 20" "v4_hlen p \<le> v4_tot_len p" "ip_version (hdr4 e p) = 4" "\<not> v4_is_frag p" "p ! 23 \<notin> {44, 58}"
    and src: "window 26 4 p = st32 e (POD_IP4 R)" and z: "54 \<le> length z"
    and hdr: "window 14 7 z = window 14 7 (rfc_frame6 e R p l4)" and adr: "window 22 32 z = window 22 32 (rfc_frame6 e R p l4)"
    and h: "h = rfc_quoted4 e R z chk" "length chk = 2"
  shows "take 4 h = window 14 4 p \<and> h ! 9 = p ! 23 \<and> drop 12 h = window 26 8 p"
proof -
  have nf: "rfc_frag_header p = []" using p(5) by (simp add: rfc_frag_header_def)
  have zs: "[z ! 14, z ! 15, z ! 16, z ! 17, z ! 18, z ! 19, z ! 20] =
      [0x60 OR drop_bit 4 (p ! 15), push_bit 4 (p ! 15), 0, 0] @ net16 (word_of_nat (v4_l4len p)) @ [rfc_next_header (p ! 23)]"
    using nths_window [of 14 7 z] z hdr p(1,5)
    by (simp add: upt_rec rfc_frame6_def rfc_header6_def nf window_def)
  then have "z ! 14 = 0x60 OR drop_bit 4 (p ! 15)" "z ! 15 = push_bit 4 (p ! 15)" by simp_all
  then have tc: "v6_tclass z = p ! 15" unfolding v6_tclass_def by (simp only: tclass_round_trip)
  have b: "\<not> v6_is_frag z" "v6_nh z = rfc_next_header (p ! 23)"
      "join16 (z ! 18) (z ! 19) = word_of_nat (v4_l4len p)"
    using p(6) zs by (auto simp: v6_is_frag_def v6_nh_def rfc_next_header_def net16_def)
  have "unat (word_of_nat (v4_l4len p) :: u16) = v4_l4len p"
    using v4_l4len_less [of p] by (simp add: unsigned_of_nat take_bit_eq_mod)
  then have "quoted_tot_len z = v4_tot_len p" using p(2,3) b by (simp add: quoted_tot_len_def v4_l4len_def)
  then have tl: "net16 (word_of_nat (quoted_tot_len z)) = [p ! 16, p ! 17]" by (simp add: v4_tot_len_def net16_def)
  have "ip_version (hdr4 e p) = drop_bit 4 (p ! 14)" using p(1) by (simp add: hdr4_def iphdr_of_def nth_window)
  moreover have "p ! 14 AND 0xf = 5" using p(2) by (simp add: v4_hlen_def word_unat_eq_iff)
  ultimately have "p ! 14 = 0x45" using nibbles [of "p ! 14"] p(4) by simp
  moreover have "window 50 4 z = drop 28 (window 22 32 z)" by (simp add: window_def drop_take)
  then have "window 50 4 z = window 30 4 p"
    using p(1) adr by (simp add: rfc_frame6_def rfc_header6_def rfc_src6_def rfc_dst6_def window_def)
  ultimately show ?thesis
    using p(1,6) b tc tl src h(2)
    by (simp add: h(1) rfc_quoted4_def rfc_frag4_def rfc_dst4_def rfc_proto4_def rfc_next_header_def window_list4 window_list8)
qed


theorem reply_round_trip_witness:
  "\<exists>w' v'. egress_translates BIG_ENDIAN (ref_kernel BIG_ENDIAN) (ex_pod BIG_ENDIAN) (ex_world CHECKSUM_NONE ex_echo) w' \<and>
     ingress_translates BIG_ENDIAN (ref_kernel BIG_ENDIAN) (ex_pod BIG_ENDIAN) (ex_world6 CHECKSUM_NONE ex_echo6) v' \<and>
     window 26 4 (pkt (w_skb v')) = [198, 51, 100, 1]"
proof -
  let ?K = "ref_kernel BIG_ENDIAN" and ?R = "ex_pod BIG_ENDIAN"
  obtain w' where w: "egress_translates BIG_ENDIAN ?K ?R (ex_world CHECKSUM_NONE ex_echo) w'"
    using ref.egress_live [OF ex_echo_ready] by blast
  obtain v' where v: "ingress_translates BIG_ENDIAN ?K ?R (ex_world6 CHECKSUM_NONE ex_echo6) v'"
    using ref.ingress_live [OF ex_echo6_ready] by blast
  obtain l4 where "pkt (w_skb w') = rfc_frame6 BIG_ENDIAN ?R ex_echo l4"
    using egress_frame6 [OF ref.bpf_kernel_axioms w refl] by (auto simp: ex_world_def)
  moreover have "34 \<le> length ex_echo" by (simp add: ex_defs)
  moreover have "in6_bytes BIG_ENDIAN (POD_IP6 ?R) = ex_pod6" "take 12 (in6_bytes BIG_ENDIAN (CLAT_PREFIX ?R)) = take 12 ex_peer6"
    by (simp_all add: ex6_defs in6_of_def in6_bytes_def)
  ultimately have a: "window 38 16 (pkt (w_skb w')) = window 22 16 ex_echo6" "window 22 16 (pkt (w_skb w')) = window 38 16 ex_echo6"
    by (simp_all add: rfc_frame6_addresses) (simp_all add: ex6_defs ex_defs window_def)
  have "v6_body ex_echo6 ! 0 = 129" "window 30 4 ex_echo = [198, 51, 100, 1]"
    by (simp_all add: ex6_eval ex_defs)
  then have "window 26 4 (pkt (w_skb v')) = [198, 51, 100, 1]"
    using reply_round_trip [OF ref.bpf_kernel_axioms w v refl refl] a by (simp add: ex_world_def ex_world6_def)
  with w v show ?thesis by blast
qed


end
